theory Spec2Isabelle
  imports Main "HOL-Library.Multiset"
begin

section \<open>Python values and failures\<close>

text \<open>
  The program is a single Python module, \<^verbatim>\<open>pairwise_ranking.py\<close>. Every exception the
  modelled statements can raise is a value of \<open>py_error\<close>; a fallible computation returns
  \<open>py_error + 'a\<close> with \<open>Inl\<close> for the exception.
\<close>

datatype py_error =
    KeyError string
  | IndexError
  | ValueError
  | TypeError
  | AttributeError

text \<open>
  A Python \<^verbatim>\<open>dict\<close> with string keys is an association list in insertion order. Lookup
  \<^verbatim>\<open>d[k]\<close> raises \<^verbatim>\<open>KeyError\<close> on a missing key; the assignment \<^verbatim>\<open>d[k] = v\<close> replaces the
  value of an existing key in place and appends a new key at the end.
\<close>

type_synonym 'v dict = "(string \<times> 'v) list"

definition has_key :: "'v dict \<Rightarrow> string \<Rightarrow> bool" where
  "has_key d k = (map_of d k \<noteq> None)"

definition dict_get :: "'v dict \<Rightarrow> string \<Rightarrow> py_error + 'v" where
  "dict_get d k = (case map_of d k of None \<Rightarrow> Inl (KeyError k) | Some v \<Rightarrow> Inr v)"

primrec dict_set :: "string \<Rightarrow> 'v \<Rightarrow> 'v dict \<Rightarrow> 'v dict" where
  "dict_set k v [] = [(k, v)]"
| "dict_set k v (p # ps) = (if fst p = k then (k, v) # ps else p # dict_set k v ps)"

text \<open>
  Python list indexing \<^verbatim>\<open>xs[i]\<close>: a negative index counts from the end, anything outside
  the list raises \<^verbatim>\<open>IndexError\<close>.
\<close>

definition py_index :: "'a list \<Rightarrow> int \<Rightarrow> py_error + 'a" where
  "py_index xs i =
     (if 0 \<le> i \<and> i < int (length xs) then Inr (xs ! nat i)
      else if i < 0 \<and> - int (length xs) \<le> i then Inr (xs ! nat (int (length xs) + i))
      else Inl IndexError)"

text \<open>Running a fallible function over a list, stopping at the first exception.\<close>

primrec map_err :: "('a \<Rightarrow> py_error + 'b) \<Rightarrow> 'a list \<Rightarrow> py_error + 'b list" where
  "map_err f [] = Inr []"
| "map_err f (x # xs) =
     (case f x of
        Inl e \<Rightarrow> Inl e
      | Inr y \<Rightarrow> (case map_err f xs of Inl e \<Rightarrow> Inl e | Inr ys \<Rightarrow> Inr (y # ys)))"

section \<open>The experiment definition and the task list\<close>

text \<open>
  The experiment file holds the candidate identifiers (\<^verbatim>\<open>weights\<close>), the datapoints
  (\<^verbatim>\<open>inputs\<close>, each with an \<^verbatim>\<open>id\<close> and an \<^verbatim>\<open>input\<close> payload) and, per candidate, the list of
  output references indexed by datapoint position (\<^verbatim>\<open>outputs\<close>).
\<close>

type_synonym payload = "string dict"

record datapoint =
  dp_id :: string
  dp_input :: payload

record experiment_data =
  weights :: "string list"
  inputs_data :: "datapoint list"
  outputs :: "string list dict"

record task =
  datapoint_id :: string
  input :: payload
  left_weight :: string
  right_weight :: string
  left_output :: string
  right_output :: string

text \<open>
  \<^verbatim>\<open>itertools.combinations(weights, 2)\<close>: the pairs of positions \<open>p < q\<close> in lexicographic
  order, each as the pair of the elements at these positions.
\<close>

primrec combinations2 :: "'a list \<Rightarrow> ('a \<times> 'a) list" where
  "combinations2 [] = []"
| "combinations2 (x # xs) = map (Pair x) xs @ combinations2 xs"

text \<open>
  The body of the inner loop (lines 74 to 81): the dictionary literal is evaluated field by
  field, so \<^verbatim>\<open>outputs[w1][i]\<close> is looked up before \<^verbatim>\<open>outputs[w2][i]\<close>. The index \<open>i\<close> comes
  from \<^verbatim>\<open>enumerate\<close> and is never negative.
\<close>

definition output_at :: "string list dict \<Rightarrow> string \<Rightarrow> nat \<Rightarrow> py_error + string" where
  "output_at outs w i =
     (case dict_get outs w of
        Inl e \<Rightarrow> Inl e
      | Inr os \<Rightarrow> py_index os (int i))"

definition make_task :: "string list dict \<Rightarrow> nat \<Rightarrow> datapoint \<Rightarrow> string \<times> string \<Rightarrow> py_error + task" where
  "make_task outs i inp ww =
     (case output_at outs (fst ww) i of
        Inl e \<Rightarrow> Inl e
      | Inr lo \<Rightarrow>
          (case output_at outs (snd ww) i of
             Inl e \<Rightarrow> Inl e
           | Inr ro \<Rightarrow>
               Inr \<lparr> datapoint_id = dp_id inp, input = dp_input inp,
                     left_weight = fst ww, right_weight = snd ww,
                     left_output = lo, right_output = ro \<rparr>))"

text \<open>
  The two nested loops of lines 71 to 81. An exception aborts the module, so the task
  list exists only when every lookup succeeds.
\<close>

definition tasks_of_datapoint :: "experiment_data \<Rightarrow> nat \<times> datapoint \<Rightarrow> py_error + task list" where
  "tasks_of_datapoint ex ip =
     map_err (make_task (outputs ex) (fst ip) (snd ip)) (combinations2 (weights ex))"

definition build_tasks :: "experiment_data \<Rightarrow> py_error + task list" where
  "build_tasks ex =
     (case map_err (tasks_of_datapoint ex) (enumerate 0 (inputs_data ex)) of
        Inl e \<Rightarrow> Inl e
      | Inr tss \<Rightarrow> Inr (concat tss))"

text \<open>The tasks generated for the datapoint at position \<open>i\<close>: the \<open>i\<close>-th block of the list.\<close>

definition pairs_count :: "experiment_data \<Rightarrow> nat" where
  "pairs_count ex = length (weights ex) * (length (weights ex) - 1) div 2"

definition tasks_for :: "experiment_data \<Rightarrow> task list \<Rightarrow> nat \<Rightarrow> task list" where
  "tasks_for ex ts i = take (pairs_count ex) (drop (i * pairs_count ex) ts)"

definition demo_experiment :: experiment_data where
  "demo_experiment =
     \<lparr> weights = [''w1'', ''w2'', ''w3''],
       inputs_data = [\<lparr> dp_id = ''dp1'', dp_input = [(''text'', ''A scenic view'')] \<rparr>],
       outputs = [(''w1'', [''/static/dp1_w1.jpg'']), (''w2'', [''/static/dp1_w2.jpg'']),
                  (''w3'', [''/static/dp1_w3.jpg''])] \<rparr>"


section \<open>Persistent progress: rater sessions and aggregate scores\<close>

text \<open>
  A rater's session is the object \<^verbatim>\<open>{"order": [...], "current_index": n}\<close>. The progress file
  is read with \<^verbatim>\<open>json.load\<close>, so the value stored under a rater identifier need not be an
  object: line 146 tests \<^verbatim>\<open>isinstance(rater_sessions[rater_id], dict)\<close>, and its comment
  names the case of a rater stored as an integer. A stored value that is an object is taken
  to have both keys, with a list of integers and an integer; any other stored value is kept
  as it is (\<open>NotDict\<close>). Scores are integers. Floating-point numbers are left out.
\<close>

datatype json = JNull | JBool bool | JInt int | JStr string | JList "json list"

record session =
  order :: "int list"
  current_index :: int

datatype session_entry = SessionDict session | NotDict json

text \<open>
  The content of \<^verbatim>\<open>progress_store.json\<close>: an object whose two fields are read with
  \<^verbatim>\<open>data.get(..., {})\<close>, so either may be absent. The file's text is not modelled:
  \<^verbatim>\<open>json.dump\<close> followed by \<^verbatim>\<open>json.load\<close> is taken to give back the same objects, lists,
  strings and integers.
\<close>

record snapshot =
  snap_rater_sessions :: "session_entry dict option"
  snap_aggregate_scores :: "int dict option"

text \<open>
  The module's mutable globals, and the progress file (\<open>None\<close> when it does not exist).
\<close>

record state =
  rater_sessions :: "session_entry dict"
  aggregate_scores :: "int dict"
  progress_store :: "snapshot option"

text \<open>Line 95, \<^verbatim>\<open>{w: 0 for w in weights}\<close>, and line 96.\<close>

definition default_aggregate_scores :: "string list \<Rightarrow> int dict" where
  "default_aggregate_scores ws = foldl (\<lambda>d w. dict_set w 0 d) [] ws"

definition default_rater_sessions :: "session_entry dict" where
  "default_rater_sessions = []"

text \<open>Lines 98 to 116. The result is the pair of the two returned fields.\<close>

definition backfill :: "string list \<Rightarrow> int dict \<Rightarrow> int dict" where
  "backfill ws stored_scores =
     foldl (\<lambda>sc w. if \<not> has_key sc w then dict_set w 0 sc else sc) stored_scores ws"

definition load_progress :: "string list \<Rightarrow> snapshot option \<Rightarrow> session_entry dict \<times> int dict" where
  "load_progress ws stored =
     (case stored of
        None \<Rightarrow> (default_rater_sessions, default_aggregate_scores ws)
      | Some data \<Rightarrow>
          (let stored_scores = (case snap_aggregate_scores data of None \<Rightarrow> [] | Some sc \<Rightarrow> sc)
           in ((case snap_rater_sessions data of None \<Rightarrow> [] | Some rs \<Rightarrow> rs),
               backfill ws stored_scores)))"

text \<open>Lines 118 to 128: the file is overwritten with both fields.\<close>

definition save_progress :: "session_entry dict \<Rightarrow> int dict \<Rightarrow> snapshot option" where
  "save_progress rs sc = Some \<lparr> snap_rater_sessions = Some rs, snap_aggregate_scores = Some sc \<rparr>"

definition saved :: "state \<Rightarrow> state" where
  "saved s = s\<lparr> progress_store := save_progress (rater_sessions s) (aggregate_scores s) \<rparr>"

text \<open>Lines 131 to 133: the state of the process once the module is loaded.\<close>

definition initial_state :: "string list \<Rightarrow> snapshot option \<Rightarrow> state" where
  "initial_state ws stored =
     \<lparr> rater_sessions = fst (load_progress ws stored),
       aggregate_scores = snd (load_progress ws stored),
       progress_store = stored \<rparr>"

section \<open>The shuffle\<close>

text \<open>
  \<^verbatim>\<open>random.shuffle\<close> belongs to the Python standard library, not to this repository. It is
  modelled after the library's code,
  \<^verbatim>\<open>for i in reversed(range(1, len(x))): j = randbelow(i + 1); x[i], x[j] = x[j], x[i]\<close>,
  with the generator's answers given as a list of naturals: the next element, reduced
  modulo \<open>i + 1\<close>, is the value of \<^verbatim>\<open>randbelow(i + 1)\<close>, and an exhausted list answers 0. Every
  run of the generator is such a list; how likely each one is lies outside the model.
\<close>

definition next_draw :: "nat list \<Rightarrow> nat" where
  "next_draw ds = (case ds of [] \<Rightarrow> 0 | d # _ \<Rightarrow> d)"

primrec shuffle_from :: "nat \<Rightarrow> nat list \<Rightarrow> 'a list \<Rightarrow> 'a list" where
  "shuffle_from 0 ds xs = xs"
| "shuffle_from (Suc k) ds xs =
     (let i = Suc k; j = next_draw ds mod (i + 1)
      in shuffle_from k (tl ds) (xs[i := xs ! j, j := xs ! i]))"

definition shuffle :: "nat list \<Rightarrow> 'a list \<Rightarrow> 'a list" where
  "shuffle ds xs = shuffle_from (length xs - 1) ds xs"

text \<open>
  The answers the generator can give during \<open>shuffle_from k\<close>: one for each of the steps
  \<open>i = k, ..., 1\<close>, the answer of step \<open>i\<close> being one of \<open>0, ..., i\<close>.
\<close>

fun valid_draws :: "nat \<Rightarrow> nat list \<Rightarrow> bool" where
  "valid_draws 0 ds = (ds = [])"
| "valid_draws (Suc k) [] = False"
| "valid_draws (Suc k) (d # ds) = (d \<le> Suc k \<and> valid_draws k ds)"

section \<open>The request handlers\<close>

datatype response =
    TaskPage string task
  | AllCompleted
  | NextTaskRedirect string
  | StatusJson string int nat
  | ResultsJson "int dict"

text \<open>
  \<^verbatim>\<open>get_task\<close>, lines 145 to 160 (the page built from the task is not modelled). The
  arguments are the task list, the generator's answers for this request, the state and the
  rater identifier. When the guard of line 146 holds the session is created, stored and
  saved (\<open>ensure_session\<close>); the session read at line 153 is then the new one. Lines 154 to
  160 choose the response from that session (\<open>page_for\<close>).
\<close>

definition new_session :: "task list \<Rightarrow> nat list \<Rightarrow> session" where
  "new_session tasks draws =
     \<lparr> order = shuffle draws (map int [0..<length tasks]), current_index = 0 \<rparr>"

definition ensure_session :: "task list \<Rightarrow> nat list \<Rightarrow> state \<Rightarrow> string \<Rightarrow> session \<times> state" where
  "ensure_session tasks draws s rater_id =
     (case map_of (rater_sessions s) rater_id of
        Some (SessionDict ss) \<Rightarrow> (ss, s)
      | _ \<Rightarrow>
          (let ss = new_session tasks draws
           in (ss, saved (s\<lparr> rater_sessions :=
                  dict_set rater_id (SessionDict ss) (rater_sessions s) \<rparr>))))"

definition page_for :: "task list \<Rightarrow> string \<Rightarrow> session \<Rightarrow> py_error + response" where
  "page_for tasks rater_id ss =
     (if current_index ss \<ge> int (length tasks) then Inr AllCompleted
      else
        (case py_index (order ss) (current_index ss) of
           Inl e \<Rightarrow> Inl e
         | Inr task_idx \<Rightarrow>
             (case py_index tasks task_idx of
                Inl e \<Rightarrow> Inl e
              | Inr t \<Rightarrow> Inr (TaskPage rater_id t))))"

text \<open>The negation of the guard of line 146: the rater's stored value is an object.\<close>

definition has_session :: "state \<Rightarrow> string \<Rightarrow> bool" where
  "has_session s rater_id =
     (case map_of (rater_sessions s) rater_id of
        Some (SessionDict ss) \<Rightarrow> True
      | _ \<Rightarrow> False)"

definition get_task :: "task list \<Rightarrow> nat list \<Rightarrow> state \<Rightarrow> string \<Rightarrow> (py_error + response) \<times> state" where
  "get_task tasks draws s rater_id =
     (page_for tasks rater_id (fst (ensure_session tasks draws s rater_id)),
      snd (ensure_session tasks draws s rater_id))"

text \<open>
  \<^verbatim>\<open>int(s)\<close> on a form field (lines 292 and 293), as CPython 3.11 evaluates it. A string is
  the list of its code points, which the type keeps below 256. Surrounding whitespace is
  dropped: the characters 9 to 13 and 32, and the two characters above 126 that Unicode
  counts as spaces, 133 and 160. Then one sign is allowed, and the decimal digits may be
  separated by single underscores. Any other character, no digit at all, or more digits
  than the interpreter's default limit of 4300 raises \<^verbatim>\<open>ValueError\<close>.
\<close>

definition is_space :: "char \<Rightarrow> bool" where
  "is_space c = (of_char c \<in> {9, 10, 11, 12, 13, 32, 133, 160 :: nat})"

definition digit_val :: "char \<Rightarrow> nat option" where
  "digit_val c =
     (let n = (of_char c :: nat) in if 48 \<le> n \<and> n \<le> 57 then Some (n - 48) else None)"

fun parse_digits :: "bool \<Rightarrow> nat \<Rightarrow> string \<Rightarrow> nat option" where
  "parse_digits prev acc [] = (if prev then Some acc else None)"
| "parse_digits prev acc (c # cs) =
     (if c = CHR ''_'' then (if prev then parse_digits False acc cs else None)
      else (case digit_val c of
              None \<Rightarrow> None
            | Some d \<Rightarrow> parse_digits True (acc * 10 + d) cs))"

definition digit_count :: "string \<Rightarrow> nat" where
  "digit_count cs = length (filter (\<lambda>c. digit_val c \<noteq> None) cs)"

definition parse_decimal :: "string \<Rightarrow> nat option" where
  "parse_decimal cs =
     (case parse_digits False 0 cs of
        None \<Rightarrow> None
      | Some n \<Rightarrow> (if digit_count cs > 4300 then None else Some n))"

definition strip :: "string \<Rightarrow> string" where
  "strip s = rev (dropWhile is_space (rev (dropWhile is_space s)))"

definition py_int :: "string \<Rightarrow> py_error + int" where
  "py_int s =
     (case strip s of
        [] \<Rightarrow> Inl ValueError
      | c # cs \<Rightarrow>
          (if c = CHR ''-'' then
             (case parse_decimal cs of None \<Rightarrow> Inl ValueError | Some n \<Rightarrow> Inr (- int n))
           else if c = CHR ''+'' then
             (case parse_decimal cs of None \<Rightarrow> Inl ValueError | Some n \<Rightarrow> Inr (int n))
           else
             (case parse_decimal (c # cs) of None \<Rightarrow> Inl ValueError | Some n \<Rightarrow> Inr (int n))))"

text \<open>
  The scoring block, lines 303 to 314. \<^verbatim>\<open>aggregate_scores[w] += d\<close> reads the entry, which
  raises \<^verbatim>\<open>KeyError\<close> for an unknown candidate, and writes it back. The first update of a
  branch stays in place when the second one raises, so the block returns the scores it
  leaves behind together with the exception, if any.
\<close>

definition add_score :: "int dict \<Rightarrow> string \<Rightarrow> int \<Rightarrow> py_error + int dict" where
  "add_score sc w d =
     (case dict_get sc w of Inl e \<Rightarrow> Inl e | Inr v \<Rightarrow> Inr (dict_set w (v + d) sc))"

definition score_pair :: "int dict \<Rightarrow> string \<Rightarrow> int \<Rightarrow> string \<Rightarrow> int \<Rightarrow> py_error option \<times> int dict" where
  "score_pair sc lw dl rw dr =
     (case add_score sc lw dl of
        Inl e \<Rightarrow> (Some e, sc)
      | Inr sc1 \<Rightarrow>
          (case add_score sc1 rw dr of
             Inl e \<Rightarrow> (Some e, sc1)
           | Inr sc2 \<Rightarrow> (None, sc2)))"

definition apply_vote :: "int dict \<Rightarrow> string \<Rightarrow> string \<Rightarrow> int \<Rightarrow> int \<Rightarrow> py_error option \<times> int dict" where
  "apply_vote sc lw rw l_sel r_sel =
     (if l_sel = 1 \<and> r_sel = 0 then score_pair sc lw 1 rw (- 1)
      else if l_sel = 0 \<and> r_sel = 1 then score_pair sc lw (- 1) rw 1
      else if l_sel = 1 \<and> r_sel = 1 then score_pair sc lw 1 rw 1
      else if l_sel = 0 \<and> r_sel = 0 then score_pair sc lw (- 1) rw (- 1)
      else (None, sc))"

text \<open>
  Line 319, \<^verbatim>\<open>rater_sessions[rater_id]["current_index"] += 1\<close>: \<^verbatim>\<open>KeyError\<close> for an unknown
  rater, \<^verbatim>\<open>TypeError\<close> when the stored value is not an object. The result carries the new
  value of \<^verbatim>\<open>current_index\<close> (line 320).
\<close>

definition advance :: "session_entry dict \<Rightarrow> string \<Rightarrow> py_error + session_entry dict \<times> int" where
  "advance rs rater_id =
     (case map_of rs rater_id of
        None \<Rightarrow> Inl (KeyError rater_id)
      | Some (NotDict v) \<Rightarrow> Inl TypeError
      | Some (SessionDict ss) \<Rightarrow>
          Inr (dict_set rater_id (SessionDict (ss\<lparr> current_index := current_index ss + 1 \<rparr>)) rs,
               current_index ss + 1))"

text \<open>\<^verbatim>\<open>submit_rating\<close>, lines 292 to 338.\<close>

definition submit_rating ::
  "task list \<Rightarrow> state \<Rightarrow> string \<Rightarrow> string \<Rightarrow> string \<Rightarrow> string \<Rightarrow> string \<Rightarrow> string
     \<Rightarrow> (py_error + response) \<times> state" where
  "submit_rating tasks s rater_id dp left_w right_w left_selected right_selected =
     (case py_int left_selected of
        Inl e \<Rightarrow> (Inl e, s)
      | Inr l_sel \<Rightarrow>
          (case py_int right_selected of
             Inl e \<Rightarrow> (Inl e, s)
           | Inr r_sel \<Rightarrow>
               (let voted = apply_vote (aggregate_scores s) left_w right_w l_sel r_sel;
                    s1 = s\<lparr> aggregate_scores := snd voted \<rparr>
                in case fst voted of
                     Some e \<Rightarrow> (Inl e, s1)
                   | None \<Rightarrow>
                       (case advance (rater_sessions s1) rater_id of
                          Inl e \<Rightarrow> (Inl e, s1)
                        | Inr (rs, next_index) \<Rightarrow>
                            (Inr (if next_index \<ge> int (length tasks) then AllCompleted
                                  else NextTaskRedirect rater_id),
                             saved (s1\<lparr> rater_sessions := rs \<rparr>))))))"

text \<open>
  \<^verbatim>\<open>get_results\<close> and \<^verbatim>\<open>get_status\<close>, lines 341 to 358. A stored value that is not an object
  has no method \<^verbatim>\<open>get\<close>.
\<close>

definition get_results :: "state \<Rightarrow> (py_error + response) \<times> state" where
  "get_results s = (Inr (ResultsJson (aggregate_scores s)), s)"

definition get_status :: "task list \<Rightarrow> state \<Rightarrow> string \<Rightarrow> (py_error + response) \<times> state" where
  "get_status tasks s rater_id =
     (case map_of (rater_sessions s) rater_id of
        None \<Rightarrow> (Inr (StatusJson rater_id 0 (length tasks)), s)
      | Some (SessionDict ss) \<Rightarrow> (Inr (StatusJson rater_id (current_index ss) (length tasks)), s)
      | Some (NotDict v) \<Rightarrow> (Inl AttributeError, s))"

section \<open>Sequences of requests\<close>

text \<open>
  The lock serialises the handlers, so a run of the server is a sequence of requests, each
  handled in the state the previous one left. A request that raises leaves the process
  running with whatever it had changed.
\<close>

datatype request =
    GetTask string "nat list"
  | Submit string string string string string string
  | GetStatus string
  | GetResults

fun handle :: "task list \<Rightarrow> request \<Rightarrow> state \<Rightarrow> (py_error + response) \<times> state" where
  "handle tasks (GetTask rater_id draws) s = get_task tasks draws s rater_id"
| "handle tasks (Submit rater_id dp lw rw ls rs) s = submit_rating tasks s rater_id dp lw rw ls rs"
| "handle tasks (GetStatus rater_id) s = get_status tasks s rater_id"
| "handle tasks GetResults s = get_results s"

primrec run :: "task list \<Rightarrow> request list \<Rightarrow> state \<Rightarrow> state" where
  "run tasks [] s = s"
| "run tasks (r # rs) s = run tasks rs (snd (handle tasks r s))"

text \<open>
  A request is accepted when its handler returns a response instead of raising. The number
  of accepted submissions of one rater in a run is the number of times that rater was
  advanced.
\<close>

definition accepted :: "task list \<Rightarrow> request \<Rightarrow> state \<Rightarrow> bool" where
  "accepted tasks q s = (\<not> isl (fst (handle tasks q s)))"

primrec all_accepted :: "task list \<Rightarrow> request list \<Rightarrow> state \<Rightarrow> bool" where
  "all_accepted tasks [] s = True"
| "all_accepted tasks (q # qs) s =
     (accepted tasks q s \<and> all_accepted tasks qs (snd (handle tasks q s)))"

fun is_submit_by :: "string \<Rightarrow> request \<Rightarrow> bool" where
  "is_submit_by rater_id (Submit r dp lw rw ls rs) = (r = rater_id)"
| "is_submit_by rater_id q = False"

primrec advances :: "task list \<Rightarrow> string \<Rightarrow> request list \<Rightarrow> state \<Rightarrow> nat" where
  "advances tasks rater_id [] s = 0"
| "advances tasks rater_id (q # qs) s =
     (if is_submit_by rater_id q \<and> accepted tasks q s then 1 else 0)
     + advances tasks rater_id qs (snd (handle tasks q s))"

section \<open>The scoring table of the specification\<close>

text \<open>
  Section 4.3 of the specification gives the effect of a vote on candidates A and B as a
  table over the two selection flags. \<open>four_way_rule\<close> is that table, written from the
  specification's words; the theorems below compare the code with it. \<open>vote_delta\<close> is
  the sum of the two changes of a vote whose flags are both 0 or 1, and 0 for any other
  flags (for which the table has no row).
\<close>

definition four_way_rule :: "bool \<Rightarrow> bool \<Rightarrow> int \<times> int" where
  "four_way_rule selected_a selected_b =
     (if selected_a \<and> \<not> selected_b then (1, - 1)
      else if \<not> selected_a \<and> selected_b then (- 1, 1)
      else if selected_a \<and> selected_b then (1, 1)
      else (- 1, - 1))"

definition vote_delta :: "int \<Rightarrow> int \<Rightarrow> int" where
  "vote_delta l r =
     (if l \<in> {0, 1} \<and> r \<in> {0, 1}
      then fst (four_way_rule (l = 1) (r = 1)) + snd (four_way_rule (l = 1) (r = 1))
      else 0)"

fun request_delta :: "request \<Rightarrow> int" where
  "request_delta (Submit rater_id dp lw rw ls rs) =
     (case py_int ls of
        Inl e \<Rightarrow> 0
      | Inr l \<Rightarrow> (case py_int rs of Inl e \<Rightarrow> 0 | Inr r \<Rightarrow> vote_delta l r))"
| "request_delta q = 0"

definition sum_scores :: "int dict \<Rightarrow> int" where
  "sum_scores sc = sum_list (map snd sc)"

section \<open>Concrete inputs\<close>

text \<open>
  The scenario of the specification: three candidates and one datapoint
  (\<open>demo_experiment\<close>), hence three tasks; the same candidates with two datapoints; a
  candidate list that names \<^verbatim>\<open>w1\<close> twice; and a progress file in which the rater
  \<^verbatim>\<open>alice\<close> is stored as an integer.
\<close>

definition demo_tasks :: "task list" where
  "demo_tasks =
     [\<lparr> datapoint_id = ''dp1'', input = [(''text'', ''A scenic view'')],
        left_weight = ''w1'', right_weight = ''w2'',
        left_output = ''/static/dp1_w1.jpg'', right_output = ''/static/dp1_w2.jpg'' \<rparr>,
      \<lparr> datapoint_id = ''dp1'', input = [(''text'', ''A scenic view'')],
        left_weight = ''w1'', right_weight = ''w3'',
        left_output = ''/static/dp1_w1.jpg'', right_output = ''/static/dp1_w3.jpg'' \<rparr>,
      \<lparr> datapoint_id = ''dp1'', input = [(''text'', ''A scenic view'')],
        left_weight = ''w2'', right_weight = ''w3'',
        left_output = ''/static/dp1_w2.jpg'', right_output = ''/static/dp1_w3.jpg'' \<rparr>]"

definition two_datapoints :: experiment_data where
  "two_datapoints =
     \<lparr> weights = [''w1'', ''w2'', ''w3''],
       inputs_data = [\<lparr> dp_id = ''dp1'', dp_input = [(''text'', ''A scenic view'')] \<rparr>,
                      \<lparr> dp_id = ''dp2'', dp_input = [(''text'', ''A cityscape'')] \<rparr>],
       outputs = [(''w1'', [''/static/dp1_w1.jpg'', ''/static/dp2_w1.jpg'']),
                  (''w2'', [''/static/dp1_w2.jpg'', ''/static/dp2_w2.jpg'']),
                  (''w3'', [''/static/dp1_w3.jpg'', ''/static/dp2_w3.jpg''])] \<rparr>"

definition two_datapoints_tasks :: "task list" where
  "two_datapoints_tasks =
     [\<lparr> datapoint_id = ''dp1'', input = [(''text'', ''A scenic view'')],
        left_weight = ''w1'', right_weight = ''w2'',
        left_output = ''/static/dp1_w1.jpg'', right_output = ''/static/dp1_w2.jpg'' \<rparr>,
      \<lparr> datapoint_id = ''dp1'', input = [(''text'', ''A scenic view'')],
        left_weight = ''w1'', right_weight = ''w3'',
        left_output = ''/static/dp1_w1.jpg'', right_output = ''/static/dp1_w3.jpg'' \<rparr>,
      \<lparr> datapoint_id = ''dp1'', input = [(''text'', ''A scenic view'')],
        left_weight = ''w2'', right_weight = ''w3'',
        left_output = ''/static/dp1_w2.jpg'', right_output = ''/static/dp1_w3.jpg'' \<rparr>,
      \<lparr> datapoint_id = ''dp2'', input = [(''text'', ''A cityscape'')],
        left_weight = ''w1'', right_weight = ''w2'',
        left_output = ''/static/dp2_w1.jpg'', right_output = ''/static/dp2_w2.jpg'' \<rparr>,
      \<lparr> datapoint_id = ''dp2'', input = [(''text'', ''A cityscape'')],
        left_weight = ''w1'', right_weight = ''w3'',
        left_output = ''/static/dp2_w1.jpg'', right_output = ''/static/dp2_w3.jpg'' \<rparr>,
      \<lparr> datapoint_id = ''dp2'', input = [(''text'', ''A cityscape'')],
        left_weight = ''w2'', right_weight = ''w3'',
        left_output = ''/static/dp2_w2.jpg'', right_output = ''/static/dp2_w3.jpg'' \<rparr>]"

definition repeated_weight :: experiment_data where
  "repeated_weight =
     \<lparr> weights = [''w1'', ''w2'', ''w1''],
       inputs_data = [\<lparr> dp_id = ''dp1'', dp_input = [(''text'', ''A scenic view'')] \<rparr>],
       outputs = [(''w1'', [''/static/dp1_w1.jpg'']), (''w2'', [''/static/dp1_w2.jpg''])] \<rparr>"

definition repeated_weight_tasks :: "task list" where
  "repeated_weight_tasks =
     [\<lparr> datapoint_id = ''dp1'', input = [(''text'', ''A scenic view'')],
        left_weight = ''w1'', right_weight = ''w2'',
        left_output = ''/static/dp1_w1.jpg'', right_output = ''/static/dp1_w2.jpg'' \<rparr>,
      \<lparr> datapoint_id = ''dp1'', input = [(''text'', ''A scenic view'')],
        left_weight = ''w1'', right_weight = ''w1'',
        left_output = ''/static/dp1_w1.jpg'', right_output = ''/static/dp1_w1.jpg'' \<rparr>,
      \<lparr> datapoint_id = ''dp1'', input = [(''text'', ''A scenic view'')],
        left_weight = ''w2'', right_weight = ''w1'',
        left_output = ''/static/dp1_w2.jpg'', right_output = ''/static/dp1_w1.jpg'' \<rparr>]"

definition demo_weights :: "string list" where
  "demo_weights = [''w1'', ''w2'', ''w3'']"

definition fresh_state :: state where
  "fresh_state = initial_state demo_weights None"

definition r1_state :: state where
  "r1_state = snd (get_task demo_tasks [2, 0] fresh_state ''r1'')"

definition demo_run :: "request list" where
  "demo_run =
     [GetTask ''r1'' [2, 0],
      Submit ''r1'' ''dp1'' ''w1'' ''w3'' ''0'' ''1'',
      Submit ''r1'' ''dp1'' ''w1'' ''w2'' ''1'' ''1'']"

definition legacy_file :: snapshot where
  "legacy_file =
     \<lparr> snap_rater_sessions = Some [(''alice'', NotDict (JInt 2))],
       snap_aggregate_scores = Some [(''w1'', 1), (''w2'', - 1), (''w3'', 0)] \<rparr>"

definition legacy_state :: state where
  "legacy_state = initial_state demo_weights (Some legacy_file)"

section \<open>Enumerating the pairs\<close>

lemma map_err_Inr:
  "map_err f xs = Inr ys \<Longrightarrow> list_all2 (\<lambda>x y. f x = Inr y) xs ys"
  by (induction xs arbitrary: ys) (auto split: sum.splits)

lemma length_combinations2: "length (combinations2 xs) = length xs * (length xs - 1) div 2"
proof (induction xs)
  case Nil
  show ?case by simp
next
  case (Cons x xs)
  have "length xs + length xs * (length xs - 1) div 2 = (length xs + 1) * length xs div 2"
    by (cases "length xs") (simp_all add: algebra_simps)
  with Cons show ?case by simp
qed

lemma set_combinations2: "set (combinations2 xs) \<subseteq> set xs \<times> set xs"
  by (induction xs) auto

lemma combinations2_positions:
  "(a, b) \<in> set (combinations2 xs) \<longleftrightarrow> (\<exists>p q. p < q \<and> q < length xs \<and> xs ! p = a \<and> xs ! q = b)"
proof (induction xs)
  case Nil
  show ?case by simp
next
  case (Cons x xs)
  show ?case (is "?L = ?R")
  proof
    assume ?L
    then consider "a = x" "b \<in> set xs" | "(a, b) \<in> set (combinations2 xs)" by auto
    then show ?R
    proof cases
      case 1
      then obtain q where "q < length xs" "xs ! q = b" by (auto simp: in_set_conv_nth)
      with 1 have "0 < Suc q \<and> Suc q < length (x # xs) \<and> (x # xs) ! 0 = a \<and> (x # xs) ! Suc q = b"
        by simp
      then show ?thesis by blast
    next
      case 2
      with Cons obtain p q where "p < q" "q < length xs" "xs ! p = a" "xs ! q = b" by blast
      then have "Suc p < Suc q \<and> Suc q < length (x # xs) \<and> (x # xs) ! Suc p = a \<and> (x # xs) ! Suc q = b"
        by simp
      then show ?thesis by blast
    qed
  next
    assume ?R
    then obtain p q where pq: "p < q" "q < length (x # xs)" "(x # xs) ! p = a" "(x # xs) ! q = b"
      by blast
    then obtain q' where q': "q = Suc q'" by (cases q) auto
    show ?L
    proof (cases p)
      case 0
      with pq q' show ?thesis by auto
    next
      case (Suc p')
      with pq q' have "p' < q' \<and> q' < length xs \<and> xs ! p' = a \<and> xs ! q' = b" by simp
      with Cons have "(a, b) \<in> set (combinations2 xs)" by blast
      then show ?thesis by simp
    qed
  qed
qed

lemma filter_pair_fixed:
  assumes "distinct xs" "x \<notin> set xs" "b \<in> set xs"
  shows "length (filter (\<lambda>p. {fst p, snd p} = {x, b}) (map (Pair x) xs)) = 1"
proof -
  have "filter (\<lambda>p. {fst p, snd p} = {x, b}) (map (Pair x) xs) = map (Pair x) (filter (\<lambda>y. y = b) xs)"
    by (induction xs) (auto simp: doubleton_eq_iff)
  moreover have "length (filter (\<lambda>y. y = b) xs) = 1"
    using assms(1,3) by (induction xs) (auto simp: filter_empty_conv)
  ultimately show ?thesis by simp
qed

lemma filter_pair_none:
  assumes "x \<notin> {a, b}"
  shows "filter (\<lambda>p. {fst p, snd p} = {a, b}) (map (Pair x) xs) = []"
  using assms by (auto simp: filter_empty_conv doubleton_eq_iff)

lemma filter_combinations2_none:
  assumes "x \<notin> set xs"
  shows "filter (\<lambda>p. {fst p, snd p} = {x, b}) (combinations2 xs) = []"
  using assms set_combinations2[of xs] by (auto simp: filter_empty_conv doubleton_eq_iff)

lemma combinations2_once:
  assumes "distinct xs" "a \<in> set xs" "b \<in> set xs" "a \<noteq> b"
  shows "length (filter (\<lambda>p. {fst p, snd p} = {a, b}) (combinations2 xs)) = 1"
  using assms
proof (induction xs)
  case Nil
  then show ?case by simp
next
  case (Cons x xs)
  show ?case
  proof (cases "x = a")
    case True
    with Cons.prems have "x \<notin> set xs" "b \<in> set xs" "distinct xs" by auto
    then show ?thesis
      using filter_pair_fixed[of xs x b] filter_combinations2_none[of x xs b] True by simp
  next
    case xa: False
    show ?thesis
    proof (cases "x = b")
      case True
      with Cons.prems have "x \<notin> set xs" "a \<in> set xs" "distinct xs" by auto
      then show ?thesis
        using filter_pair_fixed[of xs x a] filter_combinations2_none[of x xs a] True
        by (simp add: insert_commute)
    next
      case False
      with xa Cons.prems have "a \<in> set xs" "b \<in> set xs" "distinct xs" by auto
      with Cons.IH Cons.prems(4) have "length (filter (\<lambda>p. {fst p, snd p} = {a, b}) (combinations2 xs)) = 1"
        by simp
      moreover have "x \<notin> {a, b}" using xa False by simp
      ultimately show ?thesis using filter_pair_none[of x a b xs] by simp
    qed
  qed
qed

section \<open>The task list\<close>

lemma make_task_Inr:
  assumes "make_task outs i inp ww = Inr t"
  shows "datapoint_id t = dp_id inp \<and> input t = dp_input inp
       \<and> left_weight t = fst ww \<and> right_weight t = snd ww
       \<and> output_at outs (fst ww) i = Inr (left_output t)
       \<and> output_at outs (snd ww) i = Inr (right_output t)"
  using assms by (auto simp: make_task_def split: sum.splits)

lemma concat_uniform_length:
  "\<forall>xs \<in> set xss. length xs = n \<Longrightarrow> length (concat xss) = length xss * n"
  by (induction xss) auto

lemma concat_uniform_block:
  "\<forall>xs \<in> set xss. length xs = n \<Longrightarrow> i < length xss \<Longrightarrow>
     take n (drop (i * n) (concat xss)) = xss ! i"
proof (induction xss arbitrary: i)
  case Nil
  then show ?case by simp
next
  case (Cons xs xss)
  show ?case
  proof (cases i)
    case 0
    with Cons.prems show ?thesis by simp
  next
    case (Suc k)
    with Cons.prems have "take n (drop (k * n) (concat xss)) = xss ! k"
      by (intro Cons.IH) auto
    moreover have "length xs = n" using Cons.prems by simp
    ultimately show ?thesis using Suc by (simp add: add.commute)
  qed
qed

lemma build_tasks_blocks:
  assumes "build_tasks ex = Inr ts"
  shows "\<exists>tss. ts = concat tss \<and> length tss = length (inputs_data ex)
    \<and> (\<forall>i < length (inputs_data ex).
           list_all2 (\<lambda>ww t. make_task (outputs ex) i (inputs_data ex ! i) ww = Inr t)
             (combinations2 (weights ex)) (tss ! i))"
proof -
  from assms obtain tss where tss: "ts = concat tss"
    "map_err (tasks_of_datapoint ex) (enumerate 0 (inputs_data ex)) = Inr tss"
    by (auto simp: build_tasks_def split: sum.splits)
  from tss(2) have all2: "list_all2 (\<lambda>ip tks. tasks_of_datapoint ex ip = Inr tks)
      (enumerate 0 (inputs_data ex)) tss"
    by (rule map_err_Inr)
  then have len: "length tss = length (inputs_data ex)"
    by (auto dest: list_all2_lengthD)
  have "list_all2 (\<lambda>ww t. make_task (outputs ex) i (inputs_data ex ! i) ww = Inr t)
             (combinations2 (weights ex)) (tss ! i)" if "i < length (inputs_data ex)" for i
  proof -
    from all2 that have "tasks_of_datapoint ex (enumerate 0 (inputs_data ex) ! i) = Inr (tss ! i)"
      by (auto dest: list_all2_nthD)
    with that have "map_err (make_task (outputs ex) i (inputs_data ex ! i))
        (combinations2 (weights ex)) = Inr (tss ! i)"
      by (simp add: tasks_of_datapoint_def nth_enumerate_eq)
    then show ?thesis by (rule map_err_Inr)
  qed
  with tss(1) len show ?thesis by blast
qed

lemma block_pairs:
  assumes "list_all2 (\<lambda>ww t. make_task outs i inp ww = Inr t) cs tks"
  shows "map (\<lambda>t. (left_weight t, right_weight t)) tks = cs"
  using assms by (induction rule: list_all2_induct) (auto dest: make_task_Inr)

lemma block_fields:
  assumes "list_all2 (\<lambda>ww t. make_task outs i inp ww = Inr t) cs tks" "t \<in> set tks"
  shows "datapoint_id t = dp_id inp \<and> input t = dp_input inp
       \<and> output_at outs (left_weight t) i = Inr (left_output t)
       \<and> output_at outs (right_weight t) i = Inr (right_output t)"
proof -
  from assms(2) obtain k where "k < length tks" "t = tks ! k"
    by (auto simp: in_set_conv_nth)
  with assms(1) have "make_task outs i inp (cs ! k) = Inr t"
    by (simp add: list_all2_conv_all_nth)
  then show ?thesis by (auto dest: make_task_Inr)
qed

text \<open>
  Claim C1, as amended. When the task list is built from an experiment definition with
  \<open>D\<close> datapoints and a candidate list of length \<open>W\<close>, it has exactly
  \<open>D * W * (W - 1) / 2\<close> tasks. The tasks of the datapoint at position \<open>i\<close> are the
  \<open>i\<close>-th block of the list; in that block the pairs (left, right) are the pairs of
  \<^verbatim>\<open>itertools.combinations(weights, 2)\<close> in their order, one task for each pair of
  positions \<open>p < q\<close> of the candidate list, with the candidate at \<open>p\<close> on the left; every
  task carries the datapoint's identifier and payload and the two candidates' outputs for
  that datapoint. When the candidate identifiers are pairwise distinct, every unordered
  pair of distinct candidates has exactly one task per datapoint. The builder is a
  function of the definition, so equal definitions give equal lists.
\<close>
theorem build_tasks_one_per_pair:
  assumes "build_tasks ex = Inr ts"
  shows "length ts = length (inputs_data ex) * (length (weights ex) * (length (weights ex) - 1) div 2)
    \<and> (\<forall>i < length (inputs_data ex).
          map (\<lambda>t. (left_weight t, right_weight t)) (tasks_for ex ts i) = combinations2 (weights ex)
        \<and> (distinct (weights ex) \<longrightarrow>
             (\<forall>a \<in> set (weights ex). \<forall>b \<in> set (weights ex). a \<noteq> b \<longrightarrow>
                length (filter (\<lambda>t. {left_weight t, right_weight t} = {a, b}) (tasks_for ex ts i)) = 1))
        \<and> (\<forall>t \<in> set (tasks_for ex ts i).
             datapoint_id t = dp_id (inputs_data ex ! i) \<and> input t = dp_input (inputs_data ex ! i)
           \<and> output_at (outputs ex) (left_weight t) i = Inr (left_output t)
           \<and> output_at (outputs ex) (right_weight t) i = Inr (right_output t)
           \<and> (\<exists>p q. p < q \<and> q < length (weights ex)
                 \<and> left_weight t = weights ex ! p \<and> right_weight t = weights ex ! q)))"
proof -
  from assms(1) obtain tss where tss: "ts = concat tss" "length tss = length (inputs_data ex)"
    and blocks: "\<And>i. i < length (inputs_data ex) \<Longrightarrow>
           list_all2 (\<lambda>ww t. make_task (outputs ex) i (inputs_data ex ! i) ww = Inr t)
             (combinations2 (weights ex)) (tss ! i)"
    using build_tasks_blocks by blast
  have uniform: "\<forall>tks \<in> set tss. length tks = pairs_count ex"
  proof
    fix tks assume "tks \<in> set tss"
    then obtain i where "i < length tss" "tks = tss ! i" by (auto simp: in_set_conv_nth)
    with blocks[of i] tss(2) have "length tks = length (combinations2 (weights ex))"
      by (auto dest: list_all2_lengthD)
    then show "length tks = pairs_count ex" by (simp add: pairs_count_def length_combinations2)
  qed
  have count: "length ts = length (inputs_data ex) * (length (weights ex) * (length (weights ex) - 1) div 2)"
    using concat_uniform_length[OF uniform] tss by (simp add: pairs_count_def)
  have per_dp: "map (\<lambda>t. (left_weight t, right_weight t)) (tasks_for ex ts i) = combinations2 (weights ex)
        \<and> (distinct (weights ex) \<longrightarrow>
             (\<forall>a \<in> set (weights ex). \<forall>b \<in> set (weights ex). a \<noteq> b \<longrightarrow>
                length (filter (\<lambda>t. {left_weight t, right_weight t} = {a, b}) (tasks_for ex ts i)) = 1))
        \<and> (\<forall>t \<in> set (tasks_for ex ts i).
             datapoint_id t = dp_id (inputs_data ex ! i) \<and> input t = dp_input (inputs_data ex ! i)
           \<and> output_at (outputs ex) (left_weight t) i = Inr (left_output t)
           \<and> output_at (outputs ex) (right_weight t) i = Inr (right_output t)
           \<and> (\<exists>p q. p < q \<and> q < length (weights ex)
                 \<and> left_weight t = weights ex ! p \<and> right_weight t = weights ex ! q))"
    if i: "i < length (inputs_data ex)" for i
  proof -
    have blk: "tasks_for ex ts i = tss ! i"
      using concat_uniform_block[OF uniform, of i] i tss by (simp add: tasks_for_def)
    note b = blocks[OF i]
    have pairs: "map (\<lambda>t. (left_weight t, right_weight t)) (tss ! i) = combinations2 (weights ex)"
      using b by (rule block_pairs)
    have once: "length (filter (\<lambda>t. {left_weight t, right_weight t} = {a, b}) (tss ! i)) = 1"
      if "distinct (weights ex)" "a \<in> set (weights ex)" "b \<in> set (weights ex)" "a \<noteq> b" for a b
    proof -
      have "length (filter (\<lambda>t. {left_weight t, right_weight t} = {a, b}) (tss ! i))
          = length (filter (\<lambda>p. {fst p, snd p} = {a, b}) (map (\<lambda>t. (left_weight t, right_weight t)) (tss ! i)))"
        by (simp add: filter_map comp_def)
      also have "\<dots> = 1"
        unfolding pairs using that by (rule combinations2_once)
      finally show ?thesis .
    qed
    have fields: "datapoint_id t = dp_id (inputs_data ex ! i) \<and> input t = dp_input (inputs_data ex ! i)
           \<and> output_at (outputs ex) (left_weight t) i = Inr (left_output t)
           \<and> output_at (outputs ex) (right_weight t) i = Inr (right_output t)
           \<and> (\<exists>p q. p < q \<and> q < length (weights ex)
                 \<and> left_weight t = weights ex ! p \<and> right_weight t = weights ex ! q)"
      if t: "t \<in> set (tss ! i)" for t
    proof -
      from t have "(left_weight t, right_weight t) \<in> set (map (\<lambda>t. (left_weight t, right_weight t)) (tss ! i))"
        by (auto simp: image_iff)
      then have "(left_weight t, right_weight t) \<in> set (combinations2 (weights ex))"
        by (simp only: pairs)
      then have "\<exists>p q. p < q \<and> q < length (weights ex)
                 \<and> weights ex ! p = left_weight t \<and> weights ex ! q = right_weight t"
        by (simp only: combinations2_positions)
      then have "\<exists>p q. p < q \<and> q < length (weights ex)
                 \<and> left_weight t = weights ex ! p \<and> right_weight t = weights ex ! q"
        by metis
      with block_fields[OF b t] show ?thesis by simp
    qed
    from pairs once fields show ?thesis unfolding blk by blast
  qed
  from count per_dp show ?thesis by blast
qed

section \<open>Dictionaries and the scoring block\<close>

lemma map_of_dict_set: "map_of (dict_set k v d) = (map_of d)(k \<mapsto> v)"
  by (induction d) (auto simp: fun_eq_iff)

lemma keys_dict_set: "map_of d k = Some a \<Longrightarrow> map fst (dict_set k v d) = map fst d"
  by (induction d) (auto split: if_splits)

lemma sum_dict_set:
  fixes d :: "int dict"
  shows "map_of d k = Some a \<Longrightarrow> sum_list (map snd (dict_set k v d)) = sum_list (map snd d) - a + v"
  by (induction d) (auto split: if_splits)

lemma add_score_known:
  "map_of sc w = Some a \<Longrightarrow> add_score sc w d = Inr (dict_set w (a + d) sc)"
  by (simp add: add_score_def dict_get_def)

lemma add_score_unknown:
  "map_of sc w = None \<Longrightarrow> add_score sc w d = Inl (KeyError w)"
  by (simp add: add_score_def dict_get_def)

lemma score_pair_known:
  assumes "map_of sc lw = Some a" "map_of sc rw = Some b"
  shows "fst (score_pair sc lw dl rw dr) = None"
    and "map fst (snd (score_pair sc lw dl rw dr)) = map fst sc"
    and "map_of (snd (score_pair sc lw dl rw dr)) w =
           map_option (\<lambda>v. v + (if w = lw then dl else 0) + (if w = rw then dr else 0)) (map_of sc w)"
    and "sum_scores (snd (score_pair sc lw dl rw dr)) = sum_scores sc + dl + dr"
proof -
  let ?sc1 = "dict_set lw (a + dl) sc"
  have 1: "add_score sc lw dl = Inr ?sc1" using assms(1) by (rule add_score_known)
  obtain b' where b': "map_of ?sc1 rw = Some b'" "b' = (if rw = lw then a + dl else b)"
    using assms by (simp add: map_of_dict_set)
  have 2: "add_score ?sc1 rw dr = Inr (dict_set rw (b' + dr) ?sc1)"
    using b'(1) by (rule add_score_known)
  have sp: "score_pair sc lw dl rw dr = (None, dict_set rw (b' + dr) ?sc1)"
    by (simp add: score_pair_def 1 2)
  show "fst (score_pair sc lw dl rw dr) = None" by (simp add: sp)
  show "map fst (snd (score_pair sc lw dl rw dr)) = map fst sc"
    using keys_dict_set[OF b'(1)] keys_dict_set[OF assms(1)] by (simp add: sp)
  show "map_of (snd (score_pair sc lw dl rw dr)) w =
           map_option (\<lambda>v. v + (if w = lw then dl else 0) + (if w = rw then dr else 0)) (map_of sc w)"
    using assms b'(2) by (cases "map_of sc w") (auto simp: sp map_of_dict_set)
  show "sum_scores (snd (score_pair sc lw dl rw dr)) = sum_scores sc + dl + dr"
    using sum_dict_set[OF b'(1), of "b' + dr"] sum_dict_set[OF assms(1), of "a + dl"]
    by (simp add: sp sum_scores_def)
qed

lemma scores_after_submit:
  assumes "py_int ls = Inr l" "py_int rs = Inr r"
  shows "aggregate_scores (snd (submit_rating tasks s rater dp lw rw ls rs))
       = snd (apply_vote (aggregate_scores s) lw rw l r)"
  using assms
  by (auto simp: submit_rating_def Let_def saved_def split: option.splits sum.splits prod.splits)

lemma apply_vote_rule:
  assumes "l \<in> {0, 1}" "r \<in> {0, 1}"
  shows "apply_vote sc lw rw l r =
     score_pair sc lw (fst (four_way_rule (l = 1) (r = 1))) rw (snd (four_way_rule (l = 1) (r = 1)))"
  using assms by (auto simp: apply_vote_def four_way_rule_def)

lemma apply_vote_no_branch:
  assumes "\<not> (l \<in> {0, 1} \<and> r \<in> {0, 1})"
  shows "apply_vote sc lw rw l r = (None, sc)"
  using assms by (auto simp: apply_vote_def)

text \<open>
  Claim C2, as amended. For a submission whose two candidates are known: when the two
  flags are each 0 or 1, the scores after \<^verbatim>\<open>submit_rating\<close> keep the same keys in the same
  order, and every entry has changed by the table's change for A if it is the left
  candidate plus the table's change for B if it is the right candidate, so an entry of any
  other candidate is unchanged; for any other flags no score changes. This holds whether
  or not the later advance of the session succeeds.
\<close>
theorem submit_rating_four_way_rule:
  assumes "py_int left_selected = Inr l" and "py_int right_selected = Inr r"
    and "map_of (aggregate_scores s) lw = Some a" and "map_of (aggregate_scores s) rw = Some b"
  shows "(l \<in> {0, 1} \<and> r \<in> {0, 1} \<longrightarrow>
            map fst (aggregate_scores (snd (submit_rating tasks s rater dp lw rw left_selected right_selected)))
              = map fst (aggregate_scores s)
          \<and> (\<forall>w. map_of (aggregate_scores (snd (submit_rating tasks s rater dp lw rw left_selected right_selected))) w
              = map_option
                  (\<lambda>v. v + (if w = lw then fst (four_way_rule (l = 1) (r = 1)) else 0)
                         + (if w = rw then snd (four_way_rule (l = 1) (r = 1)) else 0))
                  (map_of (aggregate_scores s) w)))
       \<and> (\<not> (l \<in> {0, 1} \<and> r \<in> {0, 1}) \<longrightarrow>
            aggregate_scores (snd (submit_rating tasks s rater dp lw rw left_selected right_selected))
              = aggregate_scores s)"
proof (intro conjI impI allI)
  assume "l \<in> {0, 1} \<and> r \<in> {0, 1}"
  then have lr: "l \<in> {0, 1}" "r \<in> {0, 1}" by simp_all
  show "map fst (aggregate_scores (snd (submit_rating tasks s rater dp lw rw left_selected right_selected)))
              = map fst (aggregate_scores s)"
    using score_pair_known(2)[OF assms(3,4)]
    by (simp add: scores_after_submit[OF assms(1,2)] apply_vote_rule[OF lr])
  fix w
  show "map_of (aggregate_scores (snd (submit_rating tasks s rater dp lw rw left_selected right_selected))) w
              = map_option
                  (\<lambda>v. v + (if w = lw then fst (four_way_rule (l = 1) (r = 1)) else 0)
                         + (if w = rw then snd (four_way_rule (l = 1) (r = 1)) else 0))
                  (map_of (aggregate_scores s) w)"
    using score_pair_known(3)[OF assms(3,4)]
    by (simp add: scores_after_submit[OF assms(1,2)] apply_vote_rule[OF lr])
next
  assume "\<not> (l \<in> {0, 1} \<and> r \<in> {0, 1})"
  then have "apply_vote (aggregate_scores s) lw rw l r = (None, aggregate_scores s)"
    by (rule apply_vote_no_branch)
  then show "aggregate_scores (snd (submit_rating tasks s rater dp lw rw left_selected right_selected))
              = aggregate_scores s"
    by (simp add: scores_after_submit[OF assms(1,2)])
qed

section \<open>Sums of scores\<close>

lemma keys_add_score: "add_score sc w d = Inr sc' \<Longrightarrow> map fst sc' = map fst sc"
  by (auto simp: add_score_def dict_get_def keys_dict_set split: option.splits)

lemma keys_score_pair: "map fst (snd (score_pair sc lw dl rw dr)) = map fst sc"
  by (auto simp: score_pair_def split: sum.splits dest!: keys_add_score)

lemma keys_apply_vote: "map fst (snd (apply_vote sc lw rw l r)) = map fst sc"
  by (simp add: apply_vote_def keys_score_pair)

lemma score_pair_accepted:
  assumes "fst (score_pair sc lw dl rw dr) = None"
  shows "\<exists>a b. map_of sc lw = Some a \<and> map_of sc rw = Some b"
proof -
  from assms obtain sc1 sc2 where 1: "add_score sc lw dl = Inr sc1" and 2: "add_score sc1 rw dr = Inr sc2"
    by (auto simp: score_pair_def split: sum.splits)
  from 1 obtain a where a: "map_of sc lw = Some a"
    by (auto simp: add_score_def dict_get_def split: option.splits)
  from 2 obtain b' where "map_of sc1 rw = Some b'"
    by (auto simp: add_score_def dict_get_def split: option.splits)
  moreover from 1 a have "sc1 = dict_set lw (a + dl) sc" by (simp add: add_score_known)
  ultimately obtain b where "map_of sc rw = Some b"
    using a by (cases "rw = lw") (auto simp: map_of_dict_set)
  with a show ?thesis by blast
qed

lemma sum_apply_vote:
  assumes "fst (apply_vote sc lw rw l r) = None"
  shows "sum_scores (snd (apply_vote sc lw rw l r)) = sum_scores sc + vote_delta l r"
proof (cases "l \<in> {0, 1} \<and> r \<in> {0, 1}")
  case True
  then have eq: "apply_vote sc lw rw l r =
     score_pair sc lw (fst (four_way_rule (l = 1) (r = 1))) rw (snd (four_way_rule (l = 1) (r = 1)))"
    by (simp add: apply_vote_rule)
  with assms obtain a b where "map_of sc lw = Some a" "map_of sc rw = Some b"
    using score_pair_accepted by metis
  then show ?thesis using True by (simp add: eq score_pair_known(4) vote_delta_def)
next
  case False
  then have "apply_vote sc lw rw l r = (None, sc)" by (rule apply_vote_no_branch)
  moreover from False have "vote_delta l r = 0" unfolding vote_delta_def by (simp only: if_False)
  ultimately show ?thesis by simp
qed

lemma vote_delta_values: "vote_delta l r \<in> {- 2, 0, 2}"
  by (simp add: vote_delta_def four_way_rule_def)

lemma submit_accepted_vote:
  assumes "fst (submit_rating tasks s rater dp lw rw ls rs) = Inr resp"
  shows "\<exists>l r. py_int ls = Inr l \<and> py_int rs = Inr r
           \<and> fst (apply_vote (aggregate_scores s) lw rw l r) = None"
  using assms
  by (auto simp: submit_rating_def Let_def split: sum.splits option.splits prod.splits)

lemma sum_after_accepted_submit:
  assumes "fst (submit_rating tasks s rater dp lw rw ls rs) = Inr resp"
  shows "sum_scores (aggregate_scores (snd (submit_rating tasks s rater dp lw rw ls rs)))
       = sum_scores (aggregate_scores s) + request_delta (Submit rater dp lw rw ls rs)"
proof -
  from submit_accepted_vote[OF assms] obtain l r where
    lr: "py_int ls = Inr l" "py_int rs = Inr r" "fst (apply_vote (aggregate_scores s) lw rw l r) = None"
    by blast
  then show ?thesis
    by (simp add: scores_after_submit[OF lr(1,2)] sum_apply_vote)
qed

lemma request_delta_values: "request_delta q \<in> {- 2, 0, 2}"
proof (cases q)
  case (Submit rater dp lw rw ls rs)
  show ?thesis
  proof (cases "py_int ls")
    case (Inl e)
    with Submit show ?thesis by simp
  next
    case l: (Inr l)
    show ?thesis
    proof (cases "py_int rs")
      case (Inl e)
      with Submit l show ?thesis by simp
    next
      case (Inr r)
      with Submit l show ?thesis using vote_delta_values[of l r] by simp
    qed
  qed
qed simp_all

lemma scores_get_task: "aggregate_scores (snd (get_task tasks draws s rater)) = aggregate_scores s"
  by (simp add: get_task_def ensure_session_def saved_def Let_def
      split: option.splits session_entry.splits)

lemma sum_after_accepted:
  assumes "accepted tasks q s"
  shows "sum_scores (aggregate_scores (snd (handle tasks q s)))
       = sum_scores (aggregate_scores s) + request_delta q"
proof (cases q)
  case (GetTask rater draws)
  then show ?thesis by (simp add: scores_get_task)
next
  case (Submit rater dp lw rw ls rs)
  with assms obtain resp where "fst (submit_rating tasks s rater dp lw rw ls rs) = Inr resp"
    by (cases "fst (submit_rating tasks s rater dp lw rw ls rs)") (auto simp: accepted_def)
  then show ?thesis using Submit by (simp add: sum_after_accepted_submit)
next
  case (GetStatus rater)
  then show ?thesis
    by (simp add: get_status_def split: option.splits session_entry.splits)
next
  case GetResults
  then show ?thesis by (simp add: get_results_def)
qed

lemma sum_after_run:
  "all_accepted tasks qs s \<Longrightarrow>
     sum_scores (aggregate_scores (run tasks qs s))
       = sum_scores (aggregate_scores s) + sum_list (map request_delta qs)"
proof (induction qs arbitrary: s)
  case Nil
  show ?case by simp
next
  case (Cons q qs)
  from Cons.prems have acc: "accepted tasks q s"
    and rest: "all_accepted tasks qs (snd (handle tasks q s))" by simp_all
  have "sum_scores (aggregate_scores (run tasks (q # qs) s))
      = sum_scores (aggregate_scores (run tasks qs (snd (handle tasks q s))))" by simp
  also have "\<dots> = sum_scores (aggregate_scores (snd (handle tasks q s))) + sum_list (map request_delta qs)"
    using rest by (rule Cons.IH)
  also have "\<dots> = sum_scores (aggregate_scores s) + request_delta q + sum_list (map request_delta qs)"
    by (simp only: sum_after_accepted[OF acc])
  finally show ?case by simp
qed

lemma all_zero_dict_set:
  "\<forall>v \<in> snd ` set d. v = (0::int) \<Longrightarrow> \<forall>v \<in> snd ` set (dict_set w 0 d). v = 0"
  by (induction d) auto

lemma all_zero_fold:
  "\<forall>v \<in> snd ` set d. v = (0::int) \<Longrightarrow>
     \<forall>v \<in> snd ` set (foldl (\<lambda>d w. dict_set w 0 d) d ws). v = 0"
proof (induction ws arbitrary: d)
  case Nil
  then show ?case by simp
next
  case (Cons w ws)
  from Cons.prems have "\<forall>v \<in> snd ` set (dict_set w 0 d). v = 0" by (rule all_zero_dict_set)
  then have "\<forall>v \<in> snd ` set (foldl (\<lambda>d w. dict_set w 0 d) (dict_set w 0 d) ws). v = 0"
    by (rule Cons.IH)
  then show ?case by simp
qed

lemma all_zero_default: "\<forall>v \<in> snd ` set (default_aggregate_scores ws). v = 0"
  unfolding default_aggregate_scores_def by (rule all_zero_fold) simp

lemma sum_list_all_zero: "\<forall>v \<in> set xs. v = (0::int) \<Longrightarrow> sum_list xs = 0"
  by (induction xs) auto

lemma sum_scores_default: "sum_scores (default_aggregate_scores ws) = 0"
proof -
  have "\<forall>v \<in> set (map snd (default_aggregate_scores ws)). v = 0"
    using all_zero_default[of ws] by simp
  then have "sum_list (map snd (default_aggregate_scores ws)) = 0"
    by (rule sum_list_all_zero)
  then show ?thesis by (simp add: sum_scores_def)
qed

text \<open>
  Claim C3. An accepted submission changes the sum of all scores by the sum of the two
  changes of its table row, which is even and one of -2, 0, 2; and after any run of
  accepted requests from the zero-initialised scores (no progress file) the sum of all
  scores is the sum of these per-vote changes.
\<close>
theorem vote_sum_accounting:
  "(fst (submit_rating tasks s rater dp lw rw ls rs) = Inr resp \<longrightarrow>
      sum_scores (aggregate_scores (snd (submit_rating tasks s rater dp lw rw ls rs)))
        - sum_scores (aggregate_scores s) = request_delta (Submit rater dp lw rw ls rs)
      \<and> even (request_delta (Submit rater dp lw rw ls rs))
      \<and> request_delta (Submit rater dp lw rw ls rs) \<in> {- 2, 0, 2})
   \<and> (all_accepted tasks qs (initial_state ws None) \<longrightarrow>
        sum_scores (aggregate_scores (run tasks qs (initial_state ws None)))
          = sum_list (map request_delta qs))"
proof (intro conjI impI)
  assume "fst (submit_rating tasks s rater dp lw rw ls rs) = Inr resp"
  then show "sum_scores (aggregate_scores (snd (submit_rating tasks s rater dp lw rw ls rs)))
        - sum_scores (aggregate_scores s) = request_delta (Submit rater dp lw rw ls rs)"
    using sum_after_accepted_submit[of tasks s rater dp lw rw ls rs resp] by linarith
next
  show vals: "request_delta (Submit rater dp lw rw ls rs) \<in> {- 2, 0, 2}"
    by (rule request_delta_values)
  then have "request_delta (Submit rater dp lw rw ls rs) = - 2
      \<or> request_delta (Submit rater dp lw rw ls rs) = 0
      \<or> request_delta (Submit rater dp lw rw ls rs) = 2"
    by blast
  then show "even (request_delta (Submit rater dp lw rw ls rs))"
    by (elim disjE) (simp_all only: even_zero even_numeral even_minus)
next
  assume acc: "all_accepted tasks qs (initial_state ws None)"
  have zero: "sum_scores (aggregate_scores (initial_state ws None)) = 0"
    by (simp add: initial_state_def load_progress_def sum_scores_default)
  show "sum_scores (aggregate_scores (run tasks qs (initial_state ws None)))
          = sum_list (map request_delta qs)"
    using sum_after_run[OF acc] zero by linarith
qed

section \<open>The shuffle is a permutation\<close>

lemma mset_shuffle_from: "k < length xs \<Longrightarrow> mset (shuffle_from k ds xs) = mset xs"
proof (induction k arbitrary: ds xs)
  case 0
  show ?case by simp
next
  case (Suc k)
  let ?j = "next_draw ds mod (Suc k + 1)"
  let ?ys = "xs[Suc k := xs ! ?j, ?j := xs ! Suc k]"
  have j: "?j < length xs"
  proof -
    have "?j < Suc k + 1" by (rule mod_less_divisor) simp
    with Suc.prems show ?thesis by linarith
  qed
  have "mset ?ys = mset xs" using j Suc.prems by (rule mset_swap)
  moreover have "k < length ?ys" using Suc.prems by simp
  then have "mset (shuffle_from k (tl ds) ?ys) = mset ?ys" by (rule Suc.IH)
  ultimately show ?case by (simp add: Let_def)
qed

lemma mset_shuffle: "mset (shuffle ds xs) = mset xs"
proof (cases xs)
  case Nil
  then show ?thesis by (simp add: shuffle_def)
next
  case (Cons x ys)
  then have "length xs - 1 < length xs" by simp
  then show ?thesis unfolding shuffle_def by (rule mset_shuffle_from)
qed

lemma order_new_session:
  "mset (order (new_session tasks draws)) = mset (map int [0..<length tasks])"
  "distinct (order (new_session tasks draws))"
  "set (order (new_session tasks draws)) = {i. 0 \<le> i \<and> i < int (length tasks)}"
  "length (order (new_session tasks draws)) = length tasks"
  "current_index (new_session tasks draws) = 0"
proof -
  show m: "mset (order (new_session tasks draws)) = mset (map int [0..<length tasks])"
    by (simp add: new_session_def mset_shuffle)
  have d: "distinct (map int [0..<length tasks])" by (simp add: distinct_map)
  show "distinct (order (new_session tasks draws))"
    using m d by (metis mset_eq_imp_distinct_iff)
  have "set (order (new_session tasks draws)) = set (map int [0..<length tasks])"
    using m by (rule mset_eq_setD)
  also have "\<dots> = {i. 0 \<le> i \<and> i < int (length tasks)}"
  proof (intro set_eqI iffI)
    fix i assume "i \<in> set (map int [0..<length tasks])"
    then show "i \<in> {i. 0 \<le> i \<and> i < int (length tasks)}" by auto
  next
    fix i assume "i \<in> {i. 0 \<le> i \<and> i < int (length tasks)}"
    then have "nat i < length tasks" "int (nat i) = i" by auto
    then show "i \<in> set (map int [0..<length tasks])" by (metis atLeast0LessThan image_eqI lessThan_iff set_map set_upt)
  qed
  finally show "set (order (new_session tasks draws)) = {i. 0 \<le> i \<and> i < int (length tasks)}" .
  show "length (order (new_session tasks draws)) = length tasks"
    using m by (metis length_map length_upt mset_eq_length minus_nat.diff_0)
  show "current_index (new_session tasks draws) = 0" by (simp add: new_session_def)
qed

lemma length_shuffle_from: "length (shuffle_from k ds xs) = length xs"
  by (induction k arbitrary: ds xs) (simp_all add: Let_def)

lemma shuffle_from_above:
  "k < m \<Longrightarrow> shuffle_from k ds xs ! m = xs ! m"
proof (induction k arbitrary: ds xs)
  case 0
  show ?case by simp
next
  case (Suc k)
  let ?j = "next_draw ds mod (Suc k + 1)"
  let ?ys = "xs[Suc k := xs ! ?j, ?j := xs ! Suc k]"
  have jb: "?j < Suc k + 1" by (rule mod_less_divisor) simp
  have j: "?j \<noteq> m" using jb Suc.prems by linarith
  have i: "Suc k \<noteq> m" using Suc.prems by linarith
  from Suc.prems have "k < m" by simp
  then have "shuffle_from k (tl ds) ?ys ! m = ?ys ! m" by (rule Suc.IH)
  also have "\<dots> = xs ! m" using j i by simp
  finally show ?case by (simp add: Let_def)
qed

lemma shuffle_from_top:
  assumes "Suc k < length xs"
  shows "shuffle_from (Suc k) ds xs ! Suc k = xs ! (next_draw ds mod (Suc k + 1))"
proof -
  let ?j = "next_draw ds mod (Suc k + 1)"
  let ?ys = "xs[Suc k := xs ! ?j, ?j := xs ! Suc k]"
  have jb: "?j < Suc k + 1" by (rule mod_less_divisor) simp
  have j: "?j < length xs" using jb assms by linarith
  have "shuffle_from (Suc k) ds xs ! Suc k = shuffle_from k (tl ds) ?ys ! Suc k"
    by (simp add: Let_def)
  also have "\<dots> = ?ys ! Suc k" by (rule shuffle_from_above) simp
  also have "\<dots> = xs ! ?j" using assms j by (cases "?j = Suc k") simp_all
  finally show ?thesis .
qed

lemma distinct_swap:
  assumes "distinct xs" "i < length xs" "j < length xs"
  shows "distinct (xs[i := xs ! j, j := xs ! i])"
proof -
  have "mset (xs[i := xs ! j, j := xs ! i]) = mset xs" using assms(3,2) by (rule mset_swap)
  then show ?thesis using assms(1) by (metis mset_eq_imp_distinct_iff)
qed

lemma shuffle_from_inj:
  assumes "distinct xs" "k < length xs" "valid_draws k ds" "valid_draws k ds'"
    and "shuffle_from k ds xs = shuffle_from k ds' xs"
  shows "ds = ds'"
  using assms
proof (induction k arbitrary: ds ds' xs)
  case 0
  then show ?case by simp
next
  case (Suc k)
  from Suc.prems(3) obtain d r where ds: "ds = d # r" "d \<le> Suc k" "valid_draws k r"
    by (cases ds) auto
  from Suc.prems(4) obtain d' r' where ds': "ds' = d' # r'" "d' \<le> Suc k" "valid_draws k r'"
    by (cases ds') auto
  have top: "shuffle_from (Suc k) ds xs ! Suc k = xs ! d"
    using shuffle_from_top[OF Suc.prems(2), of ds] ds by (simp add: next_draw_def)
  have top': "shuffle_from (Suc k) ds' xs ! Suc k = xs ! d'"
    using shuffle_from_top[OF Suc.prems(2), of ds'] ds' by (simp add: next_draw_def)
  from top top' Suc.prems(5) have "xs ! d = xs ! d'" by simp
  moreover have "d < length xs" "d' < length xs" using ds(2) ds'(2) Suc.prems(2) by simp_all
  ultimately have dd: "d = d'" using Suc.prems(1) by (simp add: nth_eq_iff_index_eq)
  let ?ys = "xs[Suc k := xs ! d, d := xs ! Suc k]"
  have dist: "distinct ?ys"
    using Suc.prems(1,2) \<open>d < length xs\<close> by (intro distinct_swap)
  have len: "k < length ?ys" using Suc.prems(2) by simp
  have "shuffle_from k r ?ys = shuffle_from k r' ?ys"
    using Suc.prems(5) ds ds' dd by (simp add: Let_def next_draw_def)
  with dist len ds(3) ds'(3) have "r = r'" by (rule Suc.IH)
  with dd ds(1) ds'(1) show ?case by simp
qed

lemma shuffle_from_surj:
  assumes "distinct xs" "k < length xs" "length ys = length xs"
    and "mset (take (Suc k) ys) = mset (take (Suc k) xs)"
    and "drop (Suc k) ys = drop (Suc k) xs"
  shows "\<exists>ds. valid_draws k ds \<and> shuffle_from k ds xs = ys"
  using assms
proof (induction k arbitrary: xs ys)
  case 0
  from 0(2,3) have ny: "0 < length ys" and nx: "0 < length xs" by simp_all
  from 0(4) nx ny have "ys ! 0 = xs ! 0"
    by (simp add: take_Suc_conv_app_nth)
  moreover have "ys = ys ! 0 # drop (Suc 0) ys" using ny by (simp add: Cons_nth_drop_Suc)
  moreover have "xs = xs ! 0 # drop (Suc 0) xs" using nx by (simp add: Cons_nth_drop_Suc)
  ultimately have "ys = xs" using 0(5) by metis
  then show ?case by (intro exI[of _ "[]"]) simp
next
  case (Suc k)
  let ?n = "Suc (Suc k)"
  let ?y = "ys ! Suc k"
  have ky: "Suc k < length ys" using Suc.prems(2,3) by simp
  have "?y \<in> set (take ?n ys)" using ky by (simp add: take_Suc_conv_app_nth)
  then have "?y \<in> set (take ?n xs)" using Suc.prems(4) by (metis mset_eq_setD)
  then obtain j where j: "j < ?n" "j < length xs" "xs ! j = ?y"
    by (auto simp: in_set_conv_nth)
  let ?zs = "xs[Suc k := xs ! j, j := xs ! Suc k]"
  have top: "?zs ! Suc k = ?y"
    using j Suc.prems(2) by (cases "j = Suc k") simp_all
  have dist: "distinct ?zs" using Suc.prems(1,2) j(2) by (intro distinct_swap)
  have len: "k < length ?zs" "length ys = length ?zs" using Suc.prems(2,3) by simp_all
  have dropz: "drop ?n ?zs = drop ?n xs" using j(1) by simp
  have "drop (Suc k) ys = ?y # drop ?n ys" using ky by (simp add: Cons_nth_drop_Suc)
  also have "\<dots> = ?zs ! Suc k # drop ?n ?zs" using Suc.prems(5) top dropz by simp
  also have "\<dots> = drop (Suc k) ?zs" using Suc.prems(2) by (simp add: Cons_nth_drop_Suc)
  finally have drops: "drop (Suc k) ys = drop (Suc k) ?zs" .
  have "take ?n ?zs = (take ?n xs)[Suc k := xs ! j, j := xs ! Suc k]"
    by (simp add: take_update_swap)
  also have "mset \<dots> = mset (take ?n xs)"
  proof -
    have a: "j < length (take ?n xs)" and b: "Suc k < length (take ?n xs)"
      using j Suc.prems(2) by simp_all
    have "mset ((take ?n xs)[Suc k := take ?n xs ! j, j := take ?n xs ! Suc k]) = mset (take ?n xs)"
      using a b by (rule mset_swap)
    moreover have "take ?n xs ! j = xs ! j" "take ?n xs ! Suc k = xs ! Suc k" using j(1) by simp_all
    ultimately show ?thesis by simp
  qed
  finally have "mset (take ?n ?zs) = mset (take ?n ys)" using Suc.prems(4) by simp
  moreover have "take ?n ?zs = take (Suc k) ?zs @ [?y]"
    using Suc.prems(2) top by (simp add: take_Suc_conv_app_nth)
  moreover have "take ?n ys = take (Suc k) ys @ [?y]"
    using ky by (simp add: take_Suc_conv_app_nth)
  ultimately have takes: "mset (take (Suc k) ys) = mset (take (Suc k) ?zs)" by simp
  from Suc.IH[OF dist len(1) len(2) takes drops]
  obtain r where r: "valid_draws k r" "shuffle_from k r ?zs = ys" by blast
  from j(1) have jle: "j \<le> Suc k" by simp
  then have "j mod (Suc k + 1) = j" by simp
  then have "shuffle_from (Suc k) (j # r) xs = ys"
    using r(2) by (simp add: Let_def next_draw_def)
  moreover have "valid_draws (Suc k) (j # r)" using jle r(1) by simp
  ultimately show ?case by blast
qed

lemma shuffle_bijective:
  assumes "distinct xs" "mset ys = mset xs"
  shows "\<exists>!ds. valid_draws (length xs - 1) ds \<and> shuffle ds xs = ys"
proof (cases xs)
  case Nil
  with assms(2) have "ys = []" by simp
  with Nil show ?thesis by (auto simp: shuffle_def)
next
  case (Cons x xs')
  then have k: "length xs - 1 < length xs" and sk: "Suc (length xs - 1) = length xs" by simp_all
  from assms(2) have len: "length ys = length xs" by (rule mset_eq_length)
  have "\<exists>ds. valid_draws (length xs - 1) ds \<and> shuffle_from (length xs - 1) ds xs = ys"
    using assms(1) k len by (rule shuffle_from_surj) (simp_all add: sk len assms(2))
  then obtain ds where ds: "valid_draws (length xs - 1) ds" "shuffle ds xs = ys"
    by (auto simp: shuffle_def)
  show ?thesis
  proof (rule ex1I[of _ ds])
    from ds show "valid_draws (length xs - 1) ds \<and> shuffle ds xs = ys" by simp
  next
    fix ds' assume "valid_draws (length xs - 1) ds' \<and> shuffle ds' xs = ys"
    then have v: "valid_draws (length xs - 1) ds'"
      and "shuffle_from (length xs - 1) ds' xs = shuffle_from (length xs - 1) ds xs"
      using ds(2) by (simp_all add: shuffle_def)
    with assms(1) k ds(1) show "ds' = ds" by (intro shuffle_from_inj[of xs "length xs - 1"])
  qed
qed

lemma new_session_bijective:
  assumes "mset ys = mset (map int [0..<length tasks])"
  shows "\<exists>!ds. valid_draws (length tasks - 1) ds \<and> order (new_session tasks ds) = ys"
proof -
  have "distinct (map int [0..<length tasks])" by (simp add: distinct_map)
  from shuffle_bijective[OF this assms] show ?thesis by (simp add: new_session_def)
qed

section \<open>Sessions and submissions\<close>

lemma has_session_iff: "has_session s r \<longleftrightarrow> (\<exists>ss. map_of (rater_sessions s) r = Some (SessionDict ss))"
  by (auto simp: has_session_def split: option.splits session_entry.splits)

lemma ensure_session_existing:
  "map_of (rater_sessions s) r = Some (SessionDict ss) \<Longrightarrow> ensure_session tasks draws s r = (ss, s)"
  by (simp add: ensure_session_def)

lemma ensure_session_new:
  assumes "\<forall>ss. map_of (rater_sessions s) r \<noteq> Some (SessionDict ss)"
  shows "ensure_session tasks draws s r =
     (new_session tasks draws,
      saved (s\<lparr> rater_sessions := dict_set r (SessionDict (new_session tasks draws)) (rater_sessions s) \<rparr>))"
  using assms
  by (auto simp: ensure_session_def Let_def split: option.splits session_entry.splits)

lemma ensure_session_entry:
  "map_of (rater_sessions (snd (ensure_session tasks draws s r))) r
     = Some (SessionDict (fst (ensure_session tasks draws s r)))"
proof (cases "\<exists>ss. map_of (rater_sessions s) r = Some (SessionDict ss)")
  case True
  then show ?thesis by (auto simp: ensure_session_existing)
next
  case False
  then have "\<forall>ss. map_of (rater_sessions s) r \<noteq> Some (SessionDict ss)" by simp
  then show ?thesis by (simp add: ensure_session_new saved_def map_of_dict_set)
qed

lemma ensure_session_other:
  "r' \<noteq> r \<Longrightarrow> map_of (rater_sessions (snd (ensure_session tasks draws s r'))) r
     = map_of (rater_sessions s) r"
proof (cases "\<exists>ss. map_of (rater_sessions s) r' = Some (SessionDict ss)")
  case True
  then show ?thesis by (auto simp: ensure_session_existing)
next
  case False
  assume "r' \<noteq> r"
  moreover from False have "\<forall>ss. map_of (rater_sessions s) r' \<noteq> Some (SessionDict ss)" by simp
  ultimately show ?thesis by (simp add: ensure_session_new saved_def map_of_dict_set)
qed

lemma get_task_page:
  "get_task tasks draws s r =
     (page_for tasks r (fst (ensure_session tasks draws s r)), snd (ensure_session tasks draws s r))"
  by (simp add: get_task_def)

lemma get_task_existing:
  "map_of (rater_sessions s) r = Some (SessionDict ss) \<Longrightarrow>
     get_task tasks draws s r = (page_for tasks r ss, s)"
  by (simp add: get_task_page ensure_session_existing)

lemma get_task_entry:
  "map_of (rater_sessions (snd (get_task tasks draws s r))) r
     = Some (SessionDict (fst (ensure_session tasks draws s r)))"
  by (simp add: get_task_page ensure_session_entry)

lemma get_task_other:
  "r' \<noteq> r \<Longrightarrow> map_of (rater_sessions (snd (get_task tasks draws s r'))) r
     = map_of (rater_sessions s) r"
  by (simp add: get_task_page ensure_session_other)

lemma advance_existing:
  "map_of rs r = Some (SessionDict ss) \<Longrightarrow>
     advance rs r = Inr (dict_set r (SessionDict (ss\<lparr> current_index := current_index ss + 1 \<rparr>)) rs,
                        current_index ss + 1)"
  by (simp add: advance_def)

lemma advance_missing: "map_of rs r = None \<Longrightarrow> advance rs r = Inl (KeyError r)"
  by (simp add: advance_def)

lemma advance_Inr:
  "advance rs r = Inr (rs', n) \<Longrightarrow>
     \<exists>ss. map_of rs r = Some (SessionDict ss)
       \<and> rs' = dict_set r (SessionDict (ss\<lparr> current_index := current_index ss + 1 \<rparr>)) rs
       \<and> n = current_index ss + 1"
  by (auto simp: advance_def split: option.splits session_entry.splits)

text \<open>What submit_rating does, by the outcome of its steps.\<close>

lemma submit_parse_left_fails:
  "py_int ls = Inl e \<Longrightarrow> submit_rating tasks s r dp lw rw ls rs = (Inl e, s)"
  by (simp add: submit_rating_def)

lemma submit_parse_right_fails:
  "py_int ls = Inr l \<Longrightarrow> py_int rs = Inl e \<Longrightarrow> submit_rating tasks s r dp lw rw ls rs = (Inl e, s)"
  by (simp add: submit_rating_def)

lemma submit_vote_fails:
  "py_int ls = Inr l \<Longrightarrow> py_int rs = Inr rr \<Longrightarrow>
   fst (apply_vote (aggregate_scores s) lw rw l rr) = Some e \<Longrightarrow>
     submit_rating tasks s r dp lw rw ls rs
       = (Inl e, s\<lparr> aggregate_scores := snd (apply_vote (aggregate_scores s) lw rw l rr) \<rparr>)"
  by (simp add: submit_rating_def Let_def)

lemma submit_advance_fails:
  "py_int ls = Inr l \<Longrightarrow> py_int rs = Inr rr \<Longrightarrow>
   fst (apply_vote (aggregate_scores s) lw rw l rr) = None \<Longrightarrow>
   advance (rater_sessions s) r = Inl e \<Longrightarrow>
     submit_rating tasks s r dp lw rw ls rs
       = (Inl e, s\<lparr> aggregate_scores := snd (apply_vote (aggregate_scores s) lw rw l rr) \<rparr>)"
  by (simp add: submit_rating_def Let_def)

lemma submit_succeeds:
  "py_int ls = Inr l \<Longrightarrow> py_int rs = Inr rr \<Longrightarrow>
   fst (apply_vote (aggregate_scores s) lw rw l rr) = None \<Longrightarrow>
   advance (rater_sessions s) r = Inr (rs', n) \<Longrightarrow>
     submit_rating tasks s r dp lw rw ls rs
       = (Inr (if n \<ge> int (length tasks) then AllCompleted else NextTaskRedirect r),
          saved (s\<lparr> aggregate_scores := snd (apply_vote (aggregate_scores s) lw rw l rr),
                     rater_sessions := rs' \<rparr>))"
  by (simp add: submit_rating_def Let_def)

lemma submit_cases:
  obtains (parse) e where "submit_rating tasks s r dp lw rw ls rs = (Inl e, s)"
  | (rejected) e sc where "submit_rating tasks s r dp lw rw ls rs = (Inl e, s\<lparr> aggregate_scores := sc \<rparr>)"
  | (ok) ss sc where "map_of (rater_sessions s) r = Some (SessionDict ss)"
      "submit_rating tasks s r dp lw rw ls rs
         = (Inr (if current_index ss + 1 \<ge> int (length tasks) then AllCompleted else NextTaskRedirect r),
            saved (s\<lparr> aggregate_scores := sc,
                rater_sessions := dict_set r (SessionDict (ss\<lparr> current_index := current_index ss + 1 \<rparr>))
                                    (rater_sessions s) \<rparr>))"
proof (cases "py_int ls")
  case (Inl e)
  then show ?thesis using parse submit_parse_left_fails by blast
next
  case l: (Inr l)
  show ?thesis
  proof (cases "py_int rs")
    case (Inl e)
    then show ?thesis using parse submit_parse_right_fails[OF l] by blast
  next
    case rr: (Inr rr)
    show ?thesis
    proof (cases "fst (apply_vote (aggregate_scores s) lw rw l rr)")
      case (Some e)
      then show ?thesis using rejected submit_vote_fails[OF l rr] by blast
    next
      case None
      show ?thesis
      proof (cases "advance (rater_sessions s) r")
        case (Inl e)
        then show ?thesis using rejected submit_advance_fails[OF l rr None] by blast
      next
        case (Inr p)
        obtain rs' n where p: "p = (rs', n)" by (cases p)
        from Inr p advance_Inr obtain ss where ss: "map_of (rater_sessions s) r = Some (SessionDict ss)"
          "rs' = dict_set r (SessionDict (ss\<lparr> current_index := current_index ss + 1 \<rparr>)) (rater_sessions s)"
          "n = current_index ss + 1" by blast
        from Inr p have "advance (rater_sessions s) r = Inr (rs', n)" by simp
        from submit_succeeds[OF l rr None this, of tasks dp] ss show ?thesis using ok by blast
      qed
    qed
  qed
qed

section \<open>Sessions along a run\<close>

lemma handle_session_step:
  assumes "map_of (rater_sessions s) r = Some (SessionDict ss)"
  shows "map_of (rater_sessions (snd (handle tasks q s))) r
       = Some (SessionDict (ss\<lparr> current_index := current_index ss
            + (if is_submit_by r q \<and> accepted tasks q s then 1 else 0) \<rparr>))"
proof (cases q)
  case (GetTask r' draws)
  show ?thesis
  proof (cases "r' = r")
    case True
    with GetTask assms show ?thesis by (simp add: get_task_existing)
  next
    case False
    with GetTask assms show ?thesis by (simp add: get_task_other)
  qed
next
  case (Submit r' dp lw rw ls rs)
  show ?thesis
  proof (cases rule: submit_cases[of tasks s r' dp lw rw ls rs])
    case (parse e)
    with Submit assms show ?thesis by (simp add: accepted_def)
  next
    case (rejected e sc)
    with Submit assms show ?thesis by (simp add: accepted_def)
  next
    case (ok ss' sc)
    show ?thesis
    proof (cases "r' = r")
      case True
      with ok(1) assms have "ss' = ss" by simp
      with True ok(2) Submit show ?thesis
        by (simp add: accepted_def saved_def map_of_dict_set)
    next
      case False
      with ok(2) Submit assms show ?thesis
        by (simp add: accepted_def saved_def map_of_dict_set)
    qed
  qed
next
  case (GetStatus r')
  with assms show ?thesis
    by (simp add: get_status_def split: option.splits session_entry.splits)
next
  case GetResults
  with assms show ?thesis by (simp add: get_results_def)
qed

lemma run_session:
  assumes "map_of (rater_sessions s) r = Some (SessionDict ss)"
  shows "map_of (rater_sessions (run tasks qs s)) r
       = Some (SessionDict (ss\<lparr> current_index := current_index ss + int (advances tasks r qs s) \<rparr>))"
  using assms
proof (induction qs arbitrary: s ss)
  case Nil
  then show ?case by simp
next
  case (Cons q qs)
  let ?d = "if is_submit_by r q \<and> accepted tasks q s then 1 else (0::int)"
  let ?s1 = "snd (handle tasks q s)"
  have "map_of (rater_sessions ?s1) r = Some (SessionDict (ss\<lparr> current_index := current_index ss + ?d \<rparr>))"
    using Cons.prems by (rule handle_session_step)
  then have "map_of (rater_sessions (run tasks qs ?s1)) r
       = Some (SessionDict ((ss\<lparr> current_index := current_index ss + ?d \<rparr>)
            \<lparr> current_index := current_index (ss\<lparr> current_index := current_index ss + ?d \<rparr>)
                 + int (advances tasks r qs ?s1) \<rparr>))"
    by (rule Cons.IH)
  then show ?case by (simp add: add.assoc)
qed

text \<open>
  Claim C7, as amended. A rater whose stored value is a session object keeps a session
  object through every sequence of \<^verbatim>\<open>get_task\<close>, \<^verbatim>\<open>get_status\<close>, \<^verbatim>\<open>get_results\<close> and
  \<^verbatim>\<open>submit_rating\<close> requests, with the same order, and its current index has grown by
  exactly the number of accepted submissions of that rater; so it never decreases.
\<close>
theorem session_kept_and_advanced:
  assumes "map_of (rater_sessions s) r = Some (SessionDict ss)"
  shows "\<exists>ss'. map_of (rater_sessions (run tasks qs s)) r = Some (SessionDict ss')
           \<and> order ss' = order ss
           \<and> current_index ss' = current_index ss + int (advances tasks r qs s)
           \<and> current_index ss \<le> current_index ss'"
  using run_session[OF assms, of tasks qs] by simp

text \<open>
  Claim C5. A second \<^verbatim>\<open>get_task\<close> for the same rater, right after the first, gives the same
  response and leaves the state as the first call left it; and after any requests in
  between that do not advance this rater, \<^verbatim>\<open>get_task\<close> still gives the response of the
  first call.
\<close>
theorem get_task_repeatable:
  "get_task tasks draws2 (snd (get_task tasks draws1 s r)) r = get_task tasks draws1 s r
   \<and> (advances tasks r qs (snd (get_task tasks draws1 s r)) = 0 \<longrightarrow>
        fst (get_task tasks draws2 (run tasks qs (snd (get_task tasks draws1 s r))) r)
          = fst (get_task tasks draws1 s r))"
proof (intro conjI impI)
  let ?ss = "fst (ensure_session tasks draws1 s r)"
  let ?s1 = "snd (get_task tasks draws1 s r)"
  have entry: "map_of (rater_sessions ?s1) r = Some (SessionDict ?ss)" by (rule get_task_entry)
  have first: "fst (get_task tasks draws1 s r) = page_for tasks r ?ss"
    by (simp add: get_task_page)
  have "get_task tasks draws2 ?s1 r = (page_for tasks r ?ss, ?s1)"
    using entry by (rule get_task_existing)
  also have "\<dots> = (fst (get_task tasks draws1 s r), ?s1)" by (simp only: first)
  finally show "get_task tasks draws2 ?s1 r = get_task tasks draws1 s r" by simp
  assume "advances tasks r qs ?s1 = 0"
  with run_session[OF entry, of tasks qs]
  have "map_of (rater_sessions (run tasks qs ?s1)) r = Some (SessionDict ?ss)" by simp
  then have "get_task tasks draws2 (run tasks qs ?s1) r = (page_for tasks r ?ss, run tasks qs ?s1)"
    by (rule get_task_existing)
  then have "fst (get_task tasks draws2 (run tasks qs ?s1) r) = page_for tasks r ?ss" by simp
  then show "fst (get_task tasks draws2 (run tasks qs ?s1) r) = fst (get_task tasks draws1 s r)"
    by (simp only: first)
qed

section \<open>Creating a session, rejecting and accepting submissions\<close>

lemma page_for_new_session:
  "page_for tasks r (new_session tasks draws) =
     (if tasks = [] then Inr AllCompleted
      else Inr (TaskPage r (tasks ! nat (order (new_session tasks draws) ! 0))))"
proof (cases "tasks = []")
  case True
  then show ?thesis by (simp add: page_for_def order_new_session(5))
next
  case False
  let ?ss = "new_session tasks draws"
  from False have pos: "0 < length (order ?ss)" by (simp add: order_new_session(4))
  then have "order ?ss ! 0 \<in> set (order ?ss)" by (rule nth_mem)
  then have v: "0 \<le> order ?ss ! 0" "order ?ss ! 0 < int (length tasks)"
    by (simp_all add: order_new_session(3))
  have 1: "py_index (order ?ss) 0 = Inr (order ?ss ! 0)" using pos by (simp add: py_index_def)
  have 2: "py_index tasks (order ?ss ! 0) = Inr (tasks ! nat (order ?ss ! 0))"
    using v by (simp add: py_index_def)
  from False show ?thesis by (simp add: page_for_def order_new_session(5) 1 2)
qed

text \<open>
  Claim C4. When \<^verbatim>\<open>get_task\<close> is called for a rater whose stored value is not a session
  object (absent, or not an object), the state it leaves holds for that rater the session
  \<open>new_session tasks draws\<close>, whose order is a permutation of the task indices
  \<open>0, ..., length tasks - 1\<close> and whose current index is 0; the scores and the other
  raters' stored values are unchanged; the progress file exists and holds exactly the new
  sessions and the scores; and the response is the task at the first position of the order
  (the completion page when there are no tasks). Every permutation of the task indices is
  the order for exactly one sequence of answers of the generator, so answers that are
  uniform and independent, as \<^verbatim>\<open>randbelow\<close> gives them, make every permutation equally
  likely; the generator's own distribution belongs to the library.
\<close>
theorem get_task_creates_session:
  assumes "\<not> has_session s r"
  shows "map_of (rater_sessions (snd (get_task tasks draws s r))) r
           = Some (SessionDict (new_session tasks draws))
       \<and> mset (order (new_session tasks draws)) = mset (map int [0..<length tasks])
       \<and> distinct (order (new_session tasks draws))
       \<and> set (order (new_session tasks draws)) = {i. 0 \<le> i \<and> i < int (length tasks)}
       \<and> current_index (new_session tasks draws) = 0
       \<and> (\<forall>ys. mset ys = mset (map int [0..<length tasks]) \<longrightarrow>
             (\<exists>!ds. valid_draws (length tasks - 1) ds \<and> order (new_session tasks ds) = ys))
       \<and> aggregate_scores (snd (get_task tasks draws s r)) = aggregate_scores s
       \<and> (\<forall>r'. r' \<noteq> r \<longrightarrow>
             map_of (rater_sessions (snd (get_task tasks draws s r))) r' = map_of (rater_sessions s) r')
       \<and> progress_store (snd (get_task tasks draws s r))
           = Some \<lparr> snap_rater_sessions = Some (rater_sessions (snd (get_task tasks draws s r))),
                    snap_aggregate_scores = Some (aggregate_scores (snd (get_task tasks draws s r))) \<rparr>
       \<and> fst (get_task tasks draws s r)
           = (if tasks = [] then Inr AllCompleted
              else Inr (TaskPage r (tasks ! nat (order (new_session tasks draws) ! 0))))"
proof -
  let ?ss = "new_session tasks draws"
  let ?s1 = "saved (s\<lparr> rater_sessions := dict_set r (SessionDict ?ss) (rater_sessions s) \<rparr>)"
  from assms have none: "\<forall>ss. map_of (rater_sessions s) r \<noteq> Some (SessionDict ss)"
    by (simp add: has_session_iff)
  have gt: "get_task tasks draws s r = (page_for tasks r ?ss, ?s1)"
    by (simp add: get_task_page ensure_session_new[OF none])
  have entry: "map_of (rater_sessions (snd (get_task tasks draws s r))) r = Some (SessionDict ?ss)"
    by (simp add: gt saved_def map_of_dict_set)
  have stored: "progress_store (snd (get_task tasks draws s r))
           = Some \<lparr> snap_rater_sessions = Some (rater_sessions (snd (get_task tasks draws s r))),
                    snap_aggregate_scores = Some (aggregate_scores (snd (get_task tasks draws s r))) \<rparr>"
    by (simp add: gt saved_def save_progress_def)
  have page: "fst (get_task tasks draws s r)
           = (if tasks = [] then Inr AllCompleted
              else Inr (TaskPage r (tasks ! nat (order ?ss ! 0))))"
    by (simp only: gt fst_conv page_for_new_session)
  have others: "\<forall>r'. r' \<noteq> r \<longrightarrow>
             map_of (rater_sessions (snd (get_task tasks draws s r))) r' = map_of (rater_sessions s) r'"
    by (simp add: get_task_other)
  have every: "\<forall>ys. mset ys = mset (map int [0..<length tasks]) \<longrightarrow>
             (\<exists>!ds. valid_draws (length tasks - 1) ds \<and> order (new_session tasks ds) = ys)"
    by (intro allI impI) (rule new_session_bijective)
  from entry order_new_session[of tasks draws] every scores_get_task[of tasks draws s r]
    others stored page
  show ?thesis by (intro conjI)
qed

text \<open>
  Claim C6. For a rater with no stored session, the advance step raises \<^verbatim>\<open>KeyError\<close> for
  the rater identifier, \<^verbatim>\<open>submit_rating\<close> ends in an exception, and it leaves the sessions
  and the progress file as they were: no session is created. When the flags parse and the
  scoring block raises nothing, the exception of the request is that \<^verbatim>\<open>KeyError\<close>.
\<close>
theorem advance_unknown_rater_rejected:
  assumes "map_of (rater_sessions s) r = None"
  shows "advance (rater_sessions s) r = Inl (KeyError r)
       \<and> isl (fst (submit_rating tasks s r dp lw rw ls rs))
       \<and> rater_sessions (snd (submit_rating tasks s r dp lw rw ls rs)) = rater_sessions s
       \<and> progress_store (snd (submit_rating tasks s r dp lw rw ls rs)) = progress_store s
       \<and> (py_int ls = Inr l \<and> py_int rs = Inr rr
            \<and> fst (apply_vote (aggregate_scores s) lw rw l rr) = None
          \<longrightarrow> fst (submit_rating tasks s r dp lw rw ls rs) = Inl (KeyError r))"
proof (intro conjI impI)
  show adv: "advance (rater_sessions s) r = Inl (KeyError r)"
    using assms by (rule advance_missing)
  have shape: "isl (fst (submit_rating tasks s r dp lw rw ls rs))
       \<and> rater_sessions (snd (submit_rating tasks s r dp lw rw ls rs)) = rater_sessions s
       \<and> progress_store (snd (submit_rating tasks s r dp lw rw ls rs)) = progress_store s"
  proof (cases rule: submit_cases[of tasks s r dp lw rw ls rs])
    case (parse e)
    then show ?thesis by simp
  next
    case (rejected e sc)
    then show ?thesis by simp
  next
    case (ok ss sc)
    with assms show ?thesis by simp
  qed
  then show "isl (fst (submit_rating tasks s r dp lw rw ls rs))"
    and "rater_sessions (snd (submit_rating tasks s r dp lw rw ls rs)) = rater_sessions s"
    and "progress_store (snd (submit_rating tasks s r dp lw rw ls rs)) = progress_store s"
    by simp_all
  assume "py_int ls = Inr l \<and> py_int rs = Inr rr
            \<and> fst (apply_vote (aggregate_scores s) lw rw l rr) = None"
  then show "fst (submit_rating tasks s r dp lw rw ls rs) = Inl (KeyError r)"
    using submit_advance_fails[of ls l rs rr s lw rw r "KeyError r" tasks dp] adv by simp
qed

text \<open>
  Claim C10, as amended. For a submission by a rater who has a session, whose flags parse
  to a pair outside \<open>{0, 1} \<times> {0, 1}\<close>, no scoring branch applies: the scores are unchanged,
  the rater's current index has grown by one, the progress file exists and holds exactly
  the new sessions and the scores, and the response is the redirect to the next task (or
  the completion page), with no exception.
\<close>
theorem submit_out_of_range_flags:
  assumes "py_int ls = Inr l" and "py_int rs = Inr rr"
    and "\<not> (l \<in> {0, 1} \<and> rr \<in> {0, 1})"
    and "map_of (rater_sessions s) r = Some (SessionDict ss)"
  shows "fst (submit_rating tasks s r dp lw rw ls rs)
           = Inr (if current_index ss + 1 \<ge> int (length tasks) then AllCompleted
                  else NextTaskRedirect r)
       \<and> aggregate_scores (snd (submit_rating tasks s r dp lw rw ls rs)) = aggregate_scores s
       \<and> map_of (rater_sessions (snd (submit_rating tasks s r dp lw rw ls rs))) r
           = Some (SessionDict (ss\<lparr> current_index := current_index ss + 1 \<rparr>))
       \<and> progress_store (snd (submit_rating tasks s r dp lw rw ls rs))
           = Some \<lparr> snap_rater_sessions = Some (rater_sessions (snd (submit_rating tasks s r dp lw rw ls rs))),
                    snap_aggregate_scores = Some (aggregate_scores (snd (submit_rating tasks s r dp lw rw ls rs))) \<rparr>"
proof -
  have vote: "apply_vote (aggregate_scores s) lw rw l rr = (None, aggregate_scores s)"
    using assms(3) by (rule apply_vote_no_branch)
  then have none: "fst (apply_vote (aggregate_scores s) lw rw l rr) = None" by simp
  note adv = advance_existing[OF assms(4)]
  show ?thesis
    by (simp add: submit_succeeds[OF assms(1,2) none adv] vote saved_def save_progress_def
        map_of_dict_set)
qed

section \<open>The progress file\<close>

lemma has_key_dict_set: "has_key (dict_set k v d) w \<longleftrightarrow> w = k \<or> has_key d w"
  by (simp add: has_key_def map_of_dict_set)

lemma has_key_backfill: "has_key (backfill ws sc) w \<longleftrightarrow> has_key sc w \<or> w \<in> set ws"
  unfolding backfill_def
proof (induction ws arbitrary: sc)
  case Nil
  show ?case by simp
next
  case (Cons x ws)
  show ?case by (auto simp: Cons.IH has_key_dict_set)
qed

lemma has_key_default: "has_key (default_aggregate_scores ws) w \<longleftrightarrow> w \<in> set ws"
proof -
  have "has_key (foldl (\<lambda>d w. dict_set w 0 d) d ws) w \<longleftrightarrow> has_key d w \<or> w \<in> set ws"
    for d :: "int dict"
  proof (induction ws arbitrary: d)
    case Nil
    show ?case by simp
  next
    case (Cons x ws)
    show ?case by (auto simp: Cons.IH has_key_dict_set)
  qed
  then show ?thesis by (simp add: default_aggregate_scores_def has_key_def)
qed

lemma backfill_known: "\<forall>w \<in> set ws. has_key sc w \<Longrightarrow> backfill ws sc = sc"
  unfolding backfill_def by (induction ws arbitrary: sc) simp_all

lemma has_key_keys: "has_key d w \<longleftrightarrow> w \<in> set (map fst d)"
  by (simp add: has_key_def map_of_eq_None_iff)

lemma keys_after_handle:
  "map fst (aggregate_scores (snd (handle tasks q s))) = map fst (aggregate_scores s)"
proof (cases q)
  case (GetTask r draws)
  then show ?thesis by (simp add: scores_get_task)
next
  case (Submit r dp lw rw ls rs)
  show ?thesis
  proof (cases "py_int ls")
    case (Inl e)
    with Submit show ?thesis by (simp add: submit_parse_left_fails)
  next
    case l: (Inr l)
    show ?thesis
    proof (cases "py_int rs")
      case (Inl e)
      with Submit l show ?thesis by (simp add: submit_parse_right_fails)
    next
      case (Inr rr)
      with Submit l show ?thesis by (simp add: scores_after_submit keys_apply_vote)
    qed
  qed
next
  case (GetStatus r)
  then show ?thesis by (simp add: get_status_def split: option.splits session_entry.splits)
next
  case GetResults
  then show ?thesis by (simp add: get_results_def)
qed

lemma keys_after_run:
  "map fst (aggregate_scores (run tasks qs s)) = map fst (aggregate_scores s)"
  by (induction qs arbitrary: s) (simp_all add: keys_after_handle)

lemma initial_has_weights: "w \<in> set ws \<Longrightarrow> has_key (aggregate_scores (initial_state ws stored)) w"
  by (cases stored) (simp_all add: initial_state_def load_progress_def has_key_default has_key_backfill)

lemma reachable_has_weights:
  "w \<in> set ws \<Longrightarrow> has_key (aggregate_scores (run tasks qs (initial_state ws stored))) w"
  using initial_has_weights[of w ws stored] by (simp add: has_key_keys keys_after_run)

lemma load_after_save:
  "load_progress ws (save_progress rs sc) = (rs, backfill ws sc)"
  by (simp add: load_progress_def save_progress_def)

lemma restart_after_save:
  "backfill ws (aggregate_scores s) = aggregate_scores s \<Longrightarrow>
     initial_state ws (progress_store (saved s)) = saved s"
  by (cases s) (simp add: initial_state_def saved_def load_after_save)

text \<open>
  Claim C8. In every state the process can reach (loaded from any progress file, or none,
  and then any sequence of requests), saving the sessions and scores and loading them again
  gives back the same sessions and scores; and starting the process from the file just
  saved gives the saved state.
\<close>
theorem save_load_round_trip:
  "load_progress ws (save_progress (rater_sessions (run tasks qs (initial_state ws stored)))
       (aggregate_scores (run tasks qs (initial_state ws stored))))
     = (rater_sessions (run tasks qs (initial_state ws stored)),
        aggregate_scores (run tasks qs (initial_state ws stored)))
   \<and> initial_state ws (progress_store (saved (run tasks qs (initial_state ws stored))))
     = saved (run tasks qs (initial_state ws stored))"
proof -
  let ?s = "run tasks qs (initial_state ws stored)"
  have "\<forall>w \<in> set ws. has_key (aggregate_scores ?s) w" by (simp add: reachable_has_weights)
  then have bf: "backfill ws (aggregate_scores ?s) = aggregate_scores ?s" by (rule backfill_known)
  have 1: "load_progress ws (save_progress (rater_sessions ?s) (aggregate_scores ?s))
      = (rater_sessions ?s, aggregate_scores ?s)"
    by (simp only: load_after_save bf)
  have 2: "initial_state ws (progress_store (saved ?s)) = saved ?s"
    using bf by (rule restart_after_save)
  from 1 2 show ?thesis by (rule conjI)
qed

text \<open>
  Claim C9, as amended. For a submission by a rater with no stored session, with known
  candidates and flags that are each 0 or 1, the request ends in \<^verbatim>\<open>KeyError\<close> for the rater,
  and the scores it leaves are the updated ones (each entry changed as in claim C2); they
  differ from the scores before when the two candidates are distinct. The sessions and the
  progress file are unchanged.
\<close>
theorem rejected_vote_not_rolled_back:
  assumes "map_of (rater_sessions s) r = None"
    and "py_int ls = Inr l" and "py_int rs = Inr rr"
    and "l \<in> {0, 1}" and "rr \<in> {0, 1}"
    and "map_of (aggregate_scores s) lw = Some a" and "map_of (aggregate_scores s) rw = Some b"
  shows "fst (submit_rating tasks s r dp lw rw ls rs) = Inl (KeyError r)
       \<and> map_of (aggregate_scores (snd (submit_rating tasks s r dp lw rw ls rs))) w
           = map_option
               (\<lambda>v. v + (if w = lw then fst (four_way_rule (l = 1) (rr = 1)) else 0)
                      + (if w = rw then snd (four_way_rule (l = 1) (rr = 1)) else 0))
               (map_of (aggregate_scores s) w)
       \<and> (lw \<noteq> rw \<longrightarrow> aggregate_scores (snd (submit_rating tasks s r dp lw rw ls rs)) \<noteq> aggregate_scores s)
       \<and> rater_sessions (snd (submit_rating tasks s r dp lw rw ls rs)) = rater_sessions s
       \<and> progress_store (snd (submit_rating tasks s r dp lw rw ls rs)) = progress_store s"
proof -
  let ?dl = "fst (four_way_rule (l = 1) (rr = 1))"
  let ?dr = "snd (four_way_rule (l = 1) (rr = 1))"
  let ?sc' = "snd (apply_vote (aggregate_scores s) lw rw l rr)"
  have av: "apply_vote (aggregate_scores s) lw rw l rr = score_pair (aggregate_scores s) lw ?dl rw ?dr"
    using assms(4,5) by (rule apply_vote_rule)
  have none: "fst (apply_vote (aggregate_scores s) lw rw l rr) = None"
    by (simp only: av score_pair_known(1)[OF assms(6,7)])
  have adv: "advance (rater_sessions s) r = Inl (KeyError r)" using assms(1) by (rule advance_missing)
  have sub: "submit_rating tasks s r dp lw rw ls rs = (Inl (KeyError r), s\<lparr> aggregate_scores := ?sc' \<rparr>)"
    using assms(2,3) none adv by (rule submit_advance_fails)
  have look: "map_of ?sc' w = map_option (\<lambda>v. v + (if w = lw then ?dl else 0) + (if w = rw then ?dr else 0))
               (map_of (aggregate_scores s) w)" for w
    by (simp only: av score_pair_known(3)[OF assms(6,7)])
  have changed: "?sc' \<noteq> aggregate_scores s" if "lw \<noteq> rw"
  proof
    assume "?sc' = aggregate_scores s"
    then have "map_of ?sc' lw = map_of (aggregate_scores s) lw" by simp
    with look[of lw] that assms(6) have "a + ?dl = a" by simp
    then show False by (simp add: four_way_rule_def split: if_splits)
  qed
  show ?thesis using look[of w] changed by (simp add: sub)
qed

section \<open>The concrete inputs, evaluated\<close>

lemma py_int_flags:
  "py_int ''0'' = Inr 0" "py_int ''1'' = Inr 1" "py_int ''2'' = Inr 2"
  by (simp_all add: py_int_def strip_def is_space_def digit_val_def parse_decimal_def
      digit_count_def)

lemma demo_build: "build_tasks demo_experiment = Inr demo_tasks"
  by (simp add: build_tasks_def demo_experiment_def demo_tasks_def tasks_of_datapoint_def
      make_task_def output_at_def dict_get_def py_index_def enumerate_eq_zip)

lemma two_datapoints_build: "build_tasks two_datapoints = Inr two_datapoints_tasks"
  by (simp add: build_tasks_def two_datapoints_def two_datapoints_tasks_def tasks_of_datapoint_def
      make_task_def output_at_def dict_get_def py_index_def enumerate_eq_zip upt_rec)

lemma repeated_weight_build: "build_tasks repeated_weight = Inr repeated_weight_tasks"
  by (simp add: build_tasks_def repeated_weight_def repeated_weight_tasks_def tasks_of_datapoint_def
      make_task_def output_at_def dict_get_def py_index_def enumerate_eq_zip)

lemma fresh_state_eq:
  "fresh_state = \<lparr> rater_sessions = [], aggregate_scores = [(''w1'', 0), (''w2'', 0), (''w3'', 0)],
      progress_store = None \<rparr>"
  by (simp add: fresh_state_def initial_state_def load_progress_def demo_weights_def
      default_aggregate_scores_def default_rater_sessions_def)

lemma r1_state_eq:
  "r1_state = \<lparr> rater_sessions = [(''r1'', SessionDict \<lparr> order = [1, 0, 2], current_index = 0 \<rparr>)],
      aggregate_scores = [(''w1'', 0), (''w2'', 0), (''w3'', 0)],
      progress_store = Some \<lparr> snap_rater_sessions =
          Some [(''r1'', SessionDict \<lparr> order = [1, 0, 2], current_index = 0 \<rparr>)],
        snap_aggregate_scores = Some [(''w1'', 0), (''w2'', 0), (''w3'', 0)] \<rparr> \<rparr>"
  by (simp add: r1_state_def fresh_state_eq get_task_def ensure_session_def new_session_def
      shuffle_def next_draw_def demo_tasks_def saved_def save_progress_def Let_def upt_rec)

lemma legacy_state_eq:
  "legacy_state = \<lparr> rater_sessions = [(''alice'', NotDict (JInt 2))],
      aggregate_scores = [(''w1'', 1), (''w2'', - 1), (''w3'', 0)],
      progress_store = Some legacy_file \<rparr>"
  by (simp add: legacy_state_def initial_state_def load_progress_def legacy_file_def
      demo_weights_def backfill_def has_key_def)

lemmas submit_eval = submit_rating_def apply_vote_def score_pair_def add_score_def dict_get_def
  advance_def saved_def save_progress_def Let_def

theorem build_tasks_one_per_pair_witness:
  "build_tasks two_datapoints = Inr two_datapoints_tasks
   \<and> length two_datapoints_tasks = 6
   \<and> map (\<lambda>t. (left_weight t, right_weight t)) (tasks_for two_datapoints two_datapoints_tasks 1)
       = [(''w1'', ''w2''), (''w1'', ''w3''), (''w2'', ''w3'')]
   \<and> distinct (weights two_datapoints)
   \<and> length (filter (\<lambda>t. {left_weight t, right_weight t} = {''w3'', ''w1''})
        (tasks_for two_datapoints two_datapoints_tasks 1)) = 1
   \<and> datapoint_id (tasks_for two_datapoints two_datapoints_tasks 1 ! 0) = ''dp2''"
proof -
  have d: "distinct (weights two_datapoints)" by (simp add: two_datapoints_def)
  note t = build_tasks_one_per_pair[OF two_datapoints_build]
  from t have "length two_datapoints_tasks = length (inputs_data two_datapoints)
      * (length (weights two_datapoints) * (length (weights two_datapoints) - 1) div 2)"
    by (rule conjunct1)
  then have len: "length two_datapoints_tasks = 6" by (simp add: two_datapoints_def)
  have i: "1 < length (inputs_data two_datapoints)" by (simp add: two_datapoints_def)
  have a: "''w3'' \<in> set (weights two_datapoints)" and b: "''w1'' \<in> set (weights two_datapoints)"
    by (simp_all add: two_datapoints_def)
  have ne: "''w3'' \<noteq> ''w1''" by simp
  note per = t[THEN conjunct2, rule_format, OF i]
  from per have "map (\<lambda>t. (left_weight t, right_weight t)) (tasks_for two_datapoints two_datapoints_tasks 1)
      = combinations2 (weights two_datapoints)"
    by (rule conjunct1)
  then have pairs: "map (\<lambda>t. (left_weight t, right_weight t)) (tasks_for two_datapoints two_datapoints_tasks 1)
       = [(''w1'', ''w2''), (''w1'', ''w3''), (''w2'', ''w3'')]"
    by (simp add: two_datapoints_def)
  note once = per[THEN conjunct2, THEN conjunct1, rule_format, OF d a b ne]
  from per have "\<forall>t \<in> set (tasks_for two_datapoints two_datapoints_tasks 1).
      datapoint_id t = dp_id (inputs_data two_datapoints ! 1)"
    by blast
  then have ids: "\<forall>t \<in> set (tasks_for two_datapoints two_datapoints_tasks 1). datapoint_id t = ''dp2''"
    by (simp add: two_datapoints_def)
  have "length (map (\<lambda>t. (left_weight t, right_weight t))
        (tasks_for two_datapoints two_datapoints_tasks 1)) = 3"
    by (simp only: pairs) simp
  then have "length (tasks_for two_datapoints two_datapoints_tasks 1) = 3"
    by (simp only: length_map)
  then have "tasks_for two_datapoints two_datapoints_tasks 1 ! 0
      \<in> set (tasks_for two_datapoints two_datapoints_tasks 1)"
    by (intro nth_mem) simp
  with ids have first: "datapoint_id (tasks_for two_datapoints two_datapoints_tasks 1 ! 0) = ''dp2''"
    by (rule bspec)
  from two_datapoints_build len pairs d once first show ?thesis by (intro conjI)
qed

text \<open>
  Claim C1 as stated fails for a candidate list that names a candidate twice, which lines
  72 and 73 accept: for the list \<^verbatim>\<open>w1, w2, w1\<close> and one datapoint the builder returns three
  tasks, two of them for the pair of \<^verbatim>\<open>w1\<close> and \<^verbatim>\<open>w2\<close> and one that pairs \<^verbatim>\<open>w1\<close> with
  itself.
\<close>
theorem repeated_candidate_counterexample:
  "build_tasks repeated_weight = Inr repeated_weight_tasks
   \<and> map (\<lambda>t. (left_weight t, right_weight t)) repeated_weight_tasks
       = [(''w1'', ''w2''), (''w1'', ''w1''), (''w2'', ''w1'')]
   \<and> length (filter (\<lambda>t. {left_weight t, right_weight t} = {''w1'', ''w2''}) repeated_weight_tasks) = 2"
  by (simp add: repeated_weight_build) (simp add: repeated_weight_tasks_def doubleton_eq_iff)

lemma submit_r1_left_only:
  "fst (submit_rating demo_tasks r1_state ''r1'' ''dp1'' ''w1'' ''w3'' ''1'' ''0'')
     = Inr (NextTaskRedirect ''r1'')"
  by (simp add: submit_eval py_int_flags r1_state_eq demo_tasks_def)

theorem submit_rating_four_way_rule_witness:
  "py_int ''1'' = Inr 1 \<and> py_int ''0'' = Inr 0
   \<and> map_of (aggregate_scores r1_state) ''w1'' = Some 0
   \<and> map_of (aggregate_scores r1_state) ''w3'' = Some 0
   \<and> (1::int) \<in> {0, 1} \<and> (0::int) \<in> {0, 1}
   \<and> fst (submit_rating demo_tasks r1_state ''r1'' ''dp1'' ''w1'' ''w3'' ''1'' ''0'')
       = Inr (NextTaskRedirect ''r1'')
   \<and> map_of (aggregate_scores (snd (submit_rating demo_tasks r1_state ''r1'' ''dp1'' ''w1'' ''w3'' ''1'' ''0''))) ''w1'' = Some 1
   \<and> map_of (aggregate_scores (snd (submit_rating demo_tasks r1_state ''r1'' ''dp1'' ''w1'' ''w3'' ''1'' ''0''))) ''w3'' = Some (- 1)
   \<and> map_of (aggregate_scores (snd (submit_rating demo_tasks r1_state ''r1'' ''dp1'' ''w1'' ''w3'' ''1'' ''0''))) ''w2'' = Some 0
   \<and> py_int ''2'' = Inr 2 \<and> \<not> ((2::int) \<in> {0, 1} \<and> (0::int) \<in> {0, 1})
   \<and> aggregate_scores (snd (submit_rating demo_tasks r1_state ''r1'' ''dp1'' ''w1'' ''w3'' ''2'' ''0''))
       = aggregate_scores r1_state"
proof -
  have l: "(1::int) \<in> {0, 1}" and r: "(0::int) \<in> {0, 1}" by simp_all
  have a: "map_of (aggregate_scores r1_state) ''w1'' = Some 0"
    and b: "map_of (aggregate_scores r1_state) ''w3'' = Some 0"
    and c: "map_of (aggregate_scores r1_state) ''w2'' = Some 0"
    by (simp_all add: r1_state_eq)
  from l r have lr: "(1::int) \<in> {0, 1} \<and> (0::int) \<in> {0, 1}" by (rule conjI)
  note t = submit_rating_four_way_rule[OF py_int_flags(2) py_int_flags(1) a b,
      of demo_tasks "''r1''" "''dp1''", THEN conjunct1, rule_format, OF lr, THEN conjunct2, rule_format]
  have "map_of (aggregate_scores (snd (submit_rating demo_tasks r1_state ''r1'' ''dp1'' ''w1'' ''w3'' ''1'' ''0''))) ''w1'' = Some 1"
    using t[of "''w1''"] a by (simp add: four_way_rule_def)
  moreover have "map_of (aggregate_scores (snd (submit_rating demo_tasks r1_state ''r1'' ''dp1'' ''w1'' ''w3'' ''1'' ''0''))) ''w3'' = Some (- 1)"
    using t[of "''w3''"] b by (simp add: four_way_rule_def)
  moreover have "map_of (aggregate_scores (snd (submit_rating demo_tasks r1_state ''r1'' ''dp1'' ''w1'' ''w3'' ''1'' ''0''))) ''w2'' = Some 0"
    using t[of "''w2''"] c by (simp add: four_way_rule_def)
  moreover have out: "\<not> ((2::int) \<in> {0, 1} \<and> (0::int) \<in> {0, 1})" by simp
  moreover note submit_rating_four_way_rule[OF py_int_flags(3) py_int_flags(1) a b,
      of demo_tasks "''r1''" "''dp1''", THEN conjunct2, rule_format, OF out]
  ultimately show ?thesis using a b l r py_int_flags submit_r1_left_only by (intro conjI)
qed

text \<open>
  Claim C2 as stated fails for an accepted submission with a flag that is neither 0 nor 1:
  rater \<^verbatim>\<open>r1\<close>, who has a session, submits the known candidates \<^verbatim>\<open>w1\<close> and \<^verbatim>\<open>w2\<close> with the
  flags \<^verbatim>\<open>"1"\<close> and \<^verbatim>\<open>"2"\<close>; the submission is accepted and no score changes, whereas every
  row of the table changes both candidates.
\<close>
theorem accepted_vote_scores_unchanged_counterexample:
  "py_int ''1'' = Inr 1 \<and> py_int ''2'' = Inr 2
   \<and> has_key (aggregate_scores r1_state) ''w1'' \<and> has_key (aggregate_scores r1_state) ''w2''
   \<and> fst (submit_rating demo_tasks r1_state ''r1'' ''dp1'' ''w1'' ''w2'' ''1'' ''2'')
       = Inr (NextTaskRedirect ''r1'')
   \<and> aggregate_scores (snd (submit_rating demo_tasks r1_state ''r1'' ''dp1'' ''w1'' ''w2'' ''1'' ''2''))
       = [(''w1'', 0), (''w2'', 0), (''w3'', 0)]
   \<and> aggregate_scores r1_state = [(''w1'', 0), (''w2'', 0), (''w3'', 0)]"
  by (simp add: py_int_flags r1_state_eq has_key_def submit_eval demo_tasks_def)

lemma submit_r1_both:
  "submit_rating demo_tasks r1_state ''r1'' ''dp1'' ''w1'' ''w3'' ''1'' ''1'' =
     (Inr (NextTaskRedirect ''r1''),
      \<lparr> rater_sessions = [(''r1'', SessionDict \<lparr> order = [1, 0, 2], current_index = 1 \<rparr>)],
        aggregate_scores = [(''w1'', 1), (''w2'', 0), (''w3'', 1)],
        progress_store = Some \<lparr> snap_rater_sessions =
            Some [(''r1'', SessionDict \<lparr> order = [1, 0, 2], current_index = 1 \<rparr>)],
          snap_aggregate_scores = Some [(''w1'', 1), (''w2'', 0), (''w3'', 1)] \<rparr> \<rparr>)"
  by (simp add: submit_eval py_int_flags r1_state_eq demo_tasks_def)

lemma demo_run_step1:
  "get_task demo_tasks [2, 0] (initial_state demo_weights None) ''r1''
     = (Inr (TaskPage ''r1'' (demo_tasks ! 1)), r1_state)"
proof -
  have "fst (get_task demo_tasks [2, 0] fresh_state ''r1'') = Inr (TaskPage ''r1'' (demo_tasks ! 1))"
    by (simp add: get_task_def ensure_session_def fresh_state_eq new_session_def shuffle_def
        next_draw_def Let_def upt_rec page_for_def py_index_def demo_tasks_def)
  then show ?thesis by (simp add: r1_state_def fresh_state_def prod_eq_iff)
qed

lemma demo_run_step2:
  "submit_rating demo_tasks r1_state ''r1'' ''dp1'' ''w1'' ''w3'' ''0'' ''1'' =
     (Inr (NextTaskRedirect ''r1''),
      \<lparr> rater_sessions = [(''r1'', SessionDict \<lparr> order = [1, 0, 2], current_index = 1 \<rparr>)],
        aggregate_scores = [(''w1'', - 1), (''w2'', 0), (''w3'', 1)],
        progress_store = Some \<lparr> snap_rater_sessions =
            Some [(''r1'', SessionDict \<lparr> order = [1, 0, 2], current_index = 1 \<rparr>)],
          snap_aggregate_scores = Some [(''w1'', - 1), (''w2'', 0), (''w3'', 1)] \<rparr> \<rparr>)"
  by (simp add: submit_eval py_int_flags r1_state_eq demo_tasks_def)

lemma demo_run_step3:
  "submit_rating demo_tasks
      \<lparr> rater_sessions = [(''r1'', SessionDict \<lparr> order = [1, 0, 2], current_index = 1 \<rparr>)],
        aggregate_scores = [(''w1'', - 1), (''w2'', 0), (''w3'', 1)],
        progress_store = Some \<lparr> snap_rater_sessions =
            Some [(''r1'', SessionDict \<lparr> order = [1, 0, 2], current_index = 1 \<rparr>)],
          snap_aggregate_scores = Some [(''w1'', - 1), (''w2'', 0), (''w3'', 1)] \<rparr> \<rparr>
      ''r1'' ''dp1'' ''w1'' ''w2'' ''1'' ''1'' =
     (Inr (NextTaskRedirect ''r1''),
      \<lparr> rater_sessions = [(''r1'', SessionDict \<lparr> order = [1, 0, 2], current_index = 2 \<rparr>)],
        aggregate_scores = [(''w1'', 0), (''w2'', 1), (''w3'', 1)],
        progress_store = Some \<lparr> snap_rater_sessions =
            Some [(''r1'', SessionDict \<lparr> order = [1, 0, 2], current_index = 2 \<rparr>)],
          snap_aggregate_scores = Some [(''w1'', 0), (''w2'', 1), (''w3'', 1)] \<rparr> \<rparr>)"
  by (simp add: submit_eval py_int_flags demo_tasks_def)

lemma demo_run_accepted: "all_accepted demo_tasks demo_run (initial_state demo_weights None)"
  by (simp add: demo_run_def accepted_def demo_run_step1 demo_run_step2 demo_run_step3)

theorem vote_sum_accounting_witness:
  "fst (submit_rating demo_tasks r1_state ''r1'' ''dp1'' ''w1'' ''w3'' ''1'' ''1'')
     = Inr (NextTaskRedirect ''r1'')
   \<and> sum_scores (aggregate_scores (snd (submit_rating demo_tasks r1_state ''r1'' ''dp1'' ''w1'' ''w3'' ''1'' ''1'')))
       - sum_scores (aggregate_scores r1_state) = 2
   \<and> all_accepted demo_tasks demo_run (initial_state demo_weights None)
   \<and> sum_scores (aggregate_scores (run demo_tasks demo_run (initial_state demo_weights None))) = 2"
proof -
  have acc: "fst (submit_rating demo_tasks r1_state ''r1'' ''dp1'' ''w1'' ''w3'' ''1'' ''1'')
     = Inr (NextTaskRedirect ''r1'')"
    by (simp add: submit_r1_both)
  note t = vote_sum_accounting[of demo_tasks r1_state "''r1''" "''dp1''" "''w1''" "''w3''" "''1''" "''1''"
      "NextTaskRedirect ''r1''" demo_run demo_weights]
  have d1: "request_delta (Submit ''r1'' ''dp1'' ''w1'' ''w3'' ''1'' ''1'') = 2"
    by (simp add: py_int_flags vote_delta_def four_way_rule_def)
  have d2: "sum_list (map request_delta demo_run) = 2"
    by (simp add: demo_run_def py_int_flags vote_delta_def four_way_rule_def)
  from t acc have "sum_scores (aggregate_scores (snd (submit_rating demo_tasks r1_state ''r1'' ''dp1'' ''w1'' ''w3'' ''1'' ''1'')))
       - sum_scores (aggregate_scores r1_state) = request_delta (Submit ''r1'' ''dp1'' ''w1'' ''w3'' ''1'' ''1'')"
    by blast
  then have one: "sum_scores (aggregate_scores (snd (submit_rating demo_tasks r1_state ''r1'' ''dp1'' ''w1'' ''w3'' ''1'' ''1'')))
       - sum_scores (aggregate_scores r1_state) = 2"
    by (simp only: d1)
  from t demo_run_accepted
  have "sum_scores (aggregate_scores (run demo_tasks demo_run (initial_state demo_weights None)))
      = sum_list (map request_delta demo_run)"
    by blast
  then have many: "sum_scores (aggregate_scores (run demo_tasks demo_run (initial_state demo_weights None))) = 2"
    by (simp only: d2)
  from acc one demo_run_accepted many show ?thesis by (intro conjI)
qed

theorem get_task_creates_session_witness:
  "\<not> has_session fresh_state ''r1''
   \<and> map_of (rater_sessions r1_state) ''r1''
       = Some (SessionDict \<lparr> order = [1, 0, 2], current_index = 0 \<rparr>)
   \<and> progress_store r1_state
       = Some \<lparr> snap_rater_sessions =
                  Some [(''r1'', SessionDict \<lparr> order = [1, 0, 2], current_index = 0 \<rparr>)],
                snap_aggregate_scores = Some [(''w1'', 0), (''w2'', 0), (''w3'', 0)] \<rparr>
   \<and> fst (get_task demo_tasks [2, 0] fresh_state ''r1'') = Inr (TaskPage ''r1'' (demo_tasks ! 1))
   \<and> mset [1, 0, 2] = mset (map int [0..<length demo_tasks])
   \<and> (\<exists>ds. valid_draws (length demo_tasks - 1) ds \<and> order (new_session demo_tasks ds) = [1, 0, 2])"
proof -
  have h: "\<not> has_session fresh_state ''r1''" by (simp add: has_session_def fresh_state_eq)
  note t = get_task_creates_session[OF h, of demo_tasks "[2, 0]"]
  have ns: "new_session demo_tasks [2, 0] = \<lparr> order = [1, 0, 2], current_index = 0 \<rparr>"
    by (simp add: new_session_def shuffle_def next_draw_def demo_tasks_def upt_rec Let_def)
  from t have "map_of (rater_sessions (snd (get_task demo_tasks [2, 0] fresh_state ''r1''))) ''r1''
      = Some (SessionDict (new_session demo_tasks [2, 0]))"
    by (rule conjunct1)
  then have entry: "map_of (rater_sessions r1_state) ''r1''
       = Some (SessionDict \<lparr> order = [1, 0, 2], current_index = 0 \<rparr>)"
    by (simp only: r1_state_def ns)
  from t have "progress_store (snd (get_task demo_tasks [2, 0] fresh_state ''r1''))
      = Some \<lparr> snap_rater_sessions = Some (rater_sessions (snd (get_task demo_tasks [2, 0] fresh_state ''r1''))),
               snap_aggregate_scores = Some (aggregate_scores (snd (get_task demo_tasks [2, 0] fresh_state ''r1''))) \<rparr>"
    by blast
  then have "progress_store r1_state
      = Some \<lparr> snap_rater_sessions = Some (rater_sessions r1_state),
               snap_aggregate_scores = Some (aggregate_scores r1_state) \<rparr>"
    by (simp only: r1_state_def)
  then have stored: "progress_store r1_state
       = Some \<lparr> snap_rater_sessions =
                  Some [(''r1'', SessionDict \<lparr> order = [1, 0, 2], current_index = 0 \<rparr>)],
                snap_aggregate_scores = Some [(''w1'', 0), (''w2'', 0), (''w3'', 0)] \<rparr>"
    by (simp add: r1_state_eq)
  from t have "fst (get_task demo_tasks [2, 0] fresh_state ''r1'')
      = (if demo_tasks = [] then Inr AllCompleted
         else Inr (TaskPage ''r1'' (demo_tasks ! nat (order (new_session demo_tasks [2, 0]) ! 0))))"
    by blast
  then have page: "fst (get_task demo_tasks [2, 0] fresh_state ''r1'') = Inr (TaskPage ''r1'' (demo_tasks ! 1))"
    by (simp add: ns) (simp add: demo_tasks_def)
  have perm: "mset [1, 0, 2] = mset (map int [0..<length demo_tasks])"
    by (simp add: demo_tasks_def upt_rec)
  from t have "\<forall>ys. mset ys = mset (map int [0..<length demo_tasks]) \<longrightarrow>
      (\<exists>!ds. valid_draws (length demo_tasks - 1) ds \<and> order (new_session demo_tasks ds) = ys)"
    by blast
  with perm have "\<exists>!ds. valid_draws (length demo_tasks - 1) ds \<and> order (new_session demo_tasks ds) = [1, 0, 2]"
    by blast
  then have some: "\<exists>ds. valid_draws (length demo_tasks - 1) ds \<and> order (new_session demo_tasks ds) = [1, 0, 2]"
    by (rule ex1_implies_ex)
  from h entry stored page perm some show ?thesis by (intro conjI)
qed

theorem get_task_repeatable_witness:
  "advances demo_tasks ''r1'' [GetStatus ''r1'', GetTask ''r2'' [0, 0]]
      (snd (get_task demo_tasks [2, 0] fresh_state ''r1'')) = 0
   \<and> fst (get_task demo_tasks [1] (run demo_tasks [GetStatus ''r1'', GetTask ''r2'' [0, 0]]
          (snd (get_task demo_tasks [2, 0] fresh_state ''r1''))) ''r1'')
       = fst (get_task demo_tasks [2, 0] fresh_state ''r1'')
   \<and> get_task demo_tasks [1] (snd (get_task demo_tasks [2, 0] fresh_state ''r1'')) ''r1''
       = get_task demo_tasks [2, 0] fresh_state ''r1''"
proof -
  have h: "advances demo_tasks ''r1'' [GetStatus ''r1'', GetTask ''r2'' [0, 0]]
      (snd (get_task demo_tasks [2, 0] fresh_state ''r1'')) = 0"
    by simp
  note t = get_task_repeatable[of demo_tasks "[1]" "[2, 0]" fresh_state "''r1''"
      "[GetStatus ''r1'', GetTask ''r2'' [0, 0]]"]
  from t h have "fst (get_task demo_tasks [1] (run demo_tasks [GetStatus ''r1'', GetTask ''r2'' [0, 0]]
          (snd (get_task demo_tasks [2, 0] fresh_state ''r1''))) ''r1'')
       = fst (get_task demo_tasks [2, 0] fresh_state ''r1'')"
    by blast
  moreover from t have "get_task demo_tasks [1] (snd (get_task demo_tasks [2, 0] fresh_state ''r1'')) ''r1''
       = get_task demo_tasks [2, 0] fresh_state ''r1''"
    by (rule conjunct1)
  ultimately show ?thesis using h by (intro conjI)
qed

lemma fresh_vote_accepted: "fst (apply_vote (aggregate_scores fresh_state) ''w1'' ''w2'' 1 0) = None"
  by (simp add: fresh_state_eq apply_vote_def score_pair_def add_score_def dict_get_def)

theorem advance_unknown_rater_rejected_witness:
  "map_of (rater_sessions fresh_state) ''ghost'' = None
   \<and> advance (rater_sessions fresh_state) ''ghost'' = Inl (KeyError ''ghost'')
   \<and> fst (submit_rating demo_tasks fresh_state ''ghost'' ''dp1'' ''w1'' ''w2'' ''1'' ''0'')
       = Inl (KeyError ''ghost'')
   \<and> rater_sessions (snd (submit_rating demo_tasks fresh_state ''ghost'' ''dp1'' ''w1'' ''w2'' ''1'' ''0''))
       = rater_sessions fresh_state"
proof -
  have h: "map_of (rater_sessions fresh_state) ''ghost'' = None" by (simp add: fresh_state_eq)
  note t = advance_unknown_rater_rejected[OF h, of demo_tasks "''dp1''" "''w1''" "''w2''" "''1''" "''0''" 1 0]
  from t have 1: "advance (rater_sessions fresh_state) ''ghost'' = Inl (KeyError ''ghost'')"
    by (rule conjunct1)
  from t have 2: "rater_sessions (snd (submit_rating demo_tasks fresh_state ''ghost'' ''dp1'' ''w1'' ''w2'' ''1'' ''0''))
       = rater_sessions fresh_state"
    by blast
  from t py_int_flags(1,2) fresh_vote_accepted
  have 3: "fst (submit_rating demo_tasks fresh_state ''ghost'' ''dp1'' ''w1'' ''w2'' ''1'' ''0'')
       = Inl (KeyError ''ghost'')"
    by blast
  from h 1 3 2 show ?thesis by (intro conjI)
qed

theorem submit_out_of_range_flags_witness:
  "py_int ''2'' = Inr 2 \<and> py_int ''0'' = Inr 0 \<and> \<not> ((2::int) \<in> {0, 1} \<and> (0::int) \<in> {0, 1})
   \<and> map_of (rater_sessions r1_state) ''r1'' = Some (SessionDict \<lparr> order = [1, 0, 2], current_index = 0 \<rparr>)
   \<and> fst (submit_rating demo_tasks r1_state ''r1'' ''dp1'' ''w1'' ''w3'' ''2'' ''0'')
       = Inr (NextTaskRedirect ''r1'')
   \<and> aggregate_scores (snd (submit_rating demo_tasks r1_state ''r1'' ''dp1'' ''w1'' ''w3'' ''2'' ''0''))
       = [(''w1'', 0), (''w2'', 0), (''w3'', 0)]
   \<and> rater_sessions (snd (submit_rating demo_tasks r1_state ''r1'' ''dp1'' ''w1'' ''w3'' ''2'' ''0''))
       = [(''r1'', SessionDict \<lparr> order = [1, 0, 2], current_index = 1 \<rparr>)]
   \<and> progress_store (snd (submit_rating demo_tasks r1_state ''r1'' ''dp1'' ''w1'' ''w3'' ''2'' ''0''))
       = Some \<lparr> snap_rater_sessions =
                  Some [(''r1'', SessionDict \<lparr> order = [1, 0, 2], current_index = 1 \<rparr>)],
                snap_aggregate_scores = Some [(''w1'', 0), (''w2'', 0), (''w3'', 0)] \<rparr>"
proof -
  have range: "\<not> ((2::int) \<in> {0, 1} \<and> (0::int) \<in> {0, 1})" by simp
  have entry: "map_of (rater_sessions r1_state) ''r1''
      = Some (SessionDict \<lparr> order = [1, 0, 2], current_index = 0 \<rparr>)"
    by (simp add: r1_state_eq)
  let ?s' = "snd (submit_rating demo_tasks r1_state ''r1'' ''dp1'' ''w1'' ''w3'' ''2'' ''0'')"
  note t = submit_out_of_range_flags[OF py_int_flags(3) py_int_flags(1) range entry,
      of demo_tasks "''dp1''" "''w1''" "''w3''"]
  from t have resp: "fst (submit_rating demo_tasks r1_state ''r1'' ''dp1'' ''w1'' ''w3'' ''2'' ''0'')
       = Inr (NextTaskRedirect ''r1'')"
    by (simp add: demo_tasks_def)
  from t have "aggregate_scores ?s' = aggregate_scores r1_state" by blast
  then have sc: "aggregate_scores ?s' = [(''w1'', 0), (''w2'', 0), (''w3'', 0)]"
    by (simp add: r1_state_eq)
  have rs: "rater_sessions ?s' = [(''r1'', SessionDict \<lparr> order = [1, 0, 2], current_index = 1 \<rparr>)]"
    by (simp add: submit_eval py_int_flags r1_state_eq)
  from t have "progress_store ?s'
      = Some \<lparr> snap_rater_sessions = Some (rater_sessions ?s'),
               snap_aggregate_scores = Some (aggregate_scores ?s') \<rparr>"
    by blast
  then have stored: "progress_store ?s'
       = Some \<lparr> snap_rater_sessions =
                  Some [(''r1'', SessionDict \<lparr> order = [1, 0, 2], current_index = 1 \<rparr>)],
                snap_aggregate_scores = Some [(''w1'', 0), (''w2'', 0), (''w3'', 0)] \<rparr>"
    by (simp only: rs sc)
  from py_int_flags(3) py_int_flags(1) range entry resp sc rs stored show ?thesis by (intro conjI)
qed

text \<open>
  Claim C10 as stated fails for a rater with no session: for the unknown rater \<^verbatim>\<open>ghost\<close>,
  the known candidates \<^verbatim>\<open>w1\<close> and \<^verbatim>\<open>w3\<close> and the flags \<^verbatim>\<open>"0"\<close> and \<^verbatim>\<open>"2"\<close>, the request
  ends in \<^verbatim>\<open>KeyError\<close> and the state, progress file included, is the one before the request.
\<close>
theorem out_of_range_unknown_rater_counterexample:
  "py_int ''0'' = Inr 0 \<and> py_int ''2'' = Inr 2
   \<and> has_key (aggregate_scores fresh_state) ''w1'' \<and> has_key (aggregate_scores fresh_state) ''w3''
   \<and> map_of (rater_sessions fresh_state) ''ghost'' = None
   \<and> submit_rating demo_tasks fresh_state ''ghost'' ''dp1'' ''w1'' ''w3'' ''0'' ''2''
       = (Inl (KeyError ''ghost''), fresh_state)"
  by (simp add: py_int_flags) (simp add: fresh_state_eq has_key_def submit_eval py_int_flags)

text \<open>
  Claim C7 as stated fails for a stored value that is not an object: with the progress file
  \<open>legacy_file\<close>, in which \<^verbatim>\<open>alice\<close> is stored as the integer 2, \<^verbatim>\<open>get_task\<close> replaces
  the stored value by a new session with a new order and current index 0 (the guard of
  line 146).
\<close>
theorem stored_rater_recreated_counterexample:
  "map_of (rater_sessions legacy_state) ''alice'' = Some (NotDict (JInt 2))
   \<and> map_of (rater_sessions (snd (get_task demo_tasks [1, 1] legacy_state ''alice''))) ''alice''
       = Some (SessionDict \<lparr> order = [0, 2, 1], current_index = 0 \<rparr>)
   \<and> map_of (rater_sessions (snd (get_task demo_tasks [1, 1] legacy_state ''alice''))) ''alice''
       \<noteq> map_of (rater_sessions legacy_state) ''alice''"
  by (simp add: legacy_state_eq get_task_def ensure_session_def new_session_def shuffle_def
      next_draw_def saved_def Let_def upt_rec demo_tasks_def)

lemma advances_r1:
  "advances demo_tasks ''r1''
     [Submit ''r1'' ''dp1'' ''w1'' ''w3'' ''0'' ''1'', GetTask ''r1'' [], GetStatus ''r1''] r1_state = 1"
  by (simp add: accepted_def demo_run_step2)

theorem session_kept_and_advanced_witness:
  "map_of (rater_sessions r1_state) ''r1'' = Some (SessionDict \<lparr> order = [1, 0, 2], current_index = 0 \<rparr>)
   \<and> map_of (rater_sessions (run demo_tasks
          [Submit ''r1'' ''dp1'' ''w1'' ''w3'' ''0'' ''1'', GetTask ''r1'' [], GetStatus ''r1''] r1_state)) ''r1''
       = Some (SessionDict \<lparr> order = [1, 0, 2], current_index = 1 \<rparr>)"
proof -
  have entry: "map_of (rater_sessions r1_state) ''r1''
      = Some (SessionDict \<lparr> order = [1, 0, 2], current_index = 0 \<rparr>)"
    by (simp add: r1_state_eq)
  from session_kept_and_advanced[OF entry, of demo_tasks
      "[Submit ''r1'' ''dp1'' ''w1'' ''w3'' ''0'' ''1'', GetTask ''r1'' [], GetStatus ''r1'']"]
  obtain ss' where ss': "map_of (rater_sessions (run demo_tasks
          [Submit ''r1'' ''dp1'' ''w1'' ''w3'' ''0'' ''1'', GetTask ''r1'' [], GetStatus ''r1''] r1_state)) ''r1''
       = Some (SessionDict ss')"
    and ord: "order ss' = order \<lparr> order = [1, 0, 2], current_index = 0 \<rparr>"
    and idx: "current_index ss' = current_index \<lparr> order = [1, 0, 2], current_index = 0 \<rparr>
        + int (advances demo_tasks ''r1''
            [Submit ''r1'' ''dp1'' ''w1'' ''w3'' ''0'' ''1'', GetTask ''r1'' [], GetStatus ''r1''] r1_state)"
    by blast
  from idx have "current_index ss' = 1" by (simp only: advances_r1) simp
  with ord have "ss' = \<lparr> order = [1, 0, 2], current_index = 1 \<rparr>" by simp
  with ss' entry show ?thesis by simp
qed

text \<open>
  Claim C9 as stated fails when a flag is neither 0 nor 1: for the unknown rater
  \<^verbatim>\<open>ghost\<close>, the known candidates \<^verbatim>\<open>w1\<close> and \<^verbatim>\<open>w2\<close> and the flags \<^verbatim>\<open>"2"\<close> and \<^verbatim>\<open>"0"\<close>,
  the request is rejected and the scores are the ones before the request.
\<close>
theorem rejected_vote_scores_unchanged_counterexample:
  "map_of (rater_sessions fresh_state) ''ghost'' = None
   \<and> has_key (aggregate_scores fresh_state) ''w1'' \<and> has_key (aggregate_scores fresh_state) ''w2''
   \<and> fst (submit_rating demo_tasks fresh_state ''ghost'' ''dp1'' ''w1'' ''w2'' ''2'' ''0'')
       = Inl (KeyError ''ghost'')
   \<and> aggregate_scores (snd (submit_rating demo_tasks fresh_state ''ghost'' ''dp1'' ''w1'' ''w2'' ''2'' ''0''))
       = aggregate_scores fresh_state"
  by (simp add: fresh_state_eq has_key_def submit_eval py_int_flags)

theorem rejected_vote_not_rolled_back_witness:
  "map_of (rater_sessions fresh_state) ''ghost'' = None
   \<and> py_int ''0'' = Inr 0 \<and> py_int ''1'' = Inr 1
   \<and> map_of (aggregate_scores fresh_state) ''w2'' = Some 0
   \<and> map_of (aggregate_scores fresh_state) ''w3'' = Some 0
   \<and> fst (submit_rating demo_tasks fresh_state ''ghost'' ''dp1'' ''w2'' ''w3'' ''0'' ''1'')
       = Inl (KeyError ''ghost'')
   \<and> map_of (aggregate_scores (snd (submit_rating demo_tasks fresh_state ''ghost'' ''dp1'' ''w2'' ''w3'' ''0'' ''1''))) ''w3''
       = Some 1
   \<and> aggregate_scores (snd (submit_rating demo_tasks fresh_state ''ghost'' ''dp1'' ''w2'' ''w3'' ''0'' ''1''))
       \<noteq> aggregate_scores fresh_state"
proof -
  have h: "map_of (rater_sessions fresh_state) ''ghost'' = None" by (simp add: fresh_state_eq)
  have l: "(0::int) \<in> {0, 1}" and r: "(1::int) \<in> {0, 1}" by simp_all
  have a: "map_of (aggregate_scores fresh_state) ''w2'' = Some 0"
    and b: "map_of (aggregate_scores fresh_state) ''w3'' = Some 0"
    by (simp_all add: fresh_state_eq)
  have ne: "''w2'' \<noteq> ''w3''" by simp
  note t = rejected_vote_not_rolled_back[OF h py_int_flags(1) py_int_flags(2) l r a b,
      of demo_tasks "''dp1''" "''w3''"]
  from t have 1: "fst (submit_rating demo_tasks fresh_state ''ghost'' ''dp1'' ''w2'' ''w3'' ''0'' ''1'')
       = Inl (KeyError ''ghost'')"
    by (rule conjunct1)
  from t b have 2: "map_of (aggregate_scores (snd (submit_rating demo_tasks fresh_state ''ghost'' ''dp1'' ''w2'' ''w3'' ''0'' ''1''))) ''w3''
       = Some 1"
    by (simp add: four_way_rule_def)
  from t ne have 3: "aggregate_scores (snd (submit_rating demo_tasks fresh_state ''ghost'' ''dp1'' ''w2'' ''w3'' ''0'' ''1''))
       \<noteq> aggregate_scores fresh_state"
    by blast
  from h py_int_flags(1) py_int_flags(2) a b 1 2 3 show ?thesis by (intro conjI)
qed

end
